theory Spec2Isabelle
  imports Main
begin

section \<open>JavaScript values of the translation data\<close>

text \<open>
  The translation utilities of \<^verbatim>\<open>translation-utils.service.js\<close> work on values
  parsed from YAML or JSON: nested plain objects whose innermost values are strings
  (raw data) or objects \<^verbatim>\<open>{ _original, _translated }\<close> (processed data).
  The functions tell the two apart at run time (\<^verbatim>\<open>typeof\<close>,
  \<^verbatim>\<open>hasOwnProperty('_translated')\<close>), so the embedding keeps one untyped value
  universe and writes the run-time tests out.

  An object is a plain object, with \<^verbatim>\<open>Object.prototype\<close> for its prototype. It is the
  list of its own properties, all of them enumerable data properties, in the order in
  which \<^verbatim>\<open>for (key in obj)\<close> visits them; an object has no two properties of one name,
  so the lists that stand for objects have distinct keys. The functions fill a new
  object in the order in which they enumerate their argument, so a new object is
  enumerated in the order of the object it is made from. Numbers occur only as the
  \<^verbatim>\<open>length\<close> of a string.
\<close>

datatype jsval =
    JUndefined
  | JNull
  | JStr string
  | JNum int
  | JObj "(string \<times> jsval) list"

text \<open>What a function of the service throws instead of returning.\<close>

datatype error =
    TypeError   \<comment> \<open>a property of \<^verbatim>\<open>null\<close> or \<^verbatim>\<open>undefined\<close> is read, or a value that is no function is called\<close>
  | StackOverflow  \<comment> \<open>the call stack is exhausted by a recursion that never ends\<close>

text \<open>
  How a run ends when the model gives no result for it. \<open>Throw e\<close>: the code throws
  \<open>e\<close>. \<open>PrototypeChain\<close>: the code does not throw, but it reads a property that the
  receiver may inherit, or it sets the prototype of an object. What it does from there
  depends on the built-in objects of the engine and on objects that are no longer plain,
  and neither is modelled: the model says nothing about the rest of such a run.
\<close>

datatype stop =
    Throw error
  | PrototypeChain

text \<open>\<^verbatim>\<open>typeof v === 'object'\<close>: true of objects and of \<^verbatim>\<open>null\<close>.\<close>

fun typeof_object :: "jsval \<Rightarrow> bool" where
  "typeof_object JNull = True"
| "typeof_object (JObj kvs) = True"
| "typeof_object v = False"

text \<open>Truthiness, and \<^verbatim>\<open>a || b\<close>.\<close>

fun truthy :: "jsval \<Rightarrow> bool" where
  "truthy JUndefined = False"
| "truthy JNull = False"
| "truthy (JStr s) = (s \<noteq> [])"
| "truthy (JNum i) = (i \<noteq> 0)"
| "truthy (JObj kvs) = True"

definition js_or :: "jsval \<Rightarrow> jsval \<Rightarrow> jsval" where
  "js_or a b = (if truthy a then a else b)"

text \<open>
  The names of the two fields of a leaf, and the names of the properties of
  \<^verbatim>\<open>Object.prototype\<close> (ECMAScript 2015 with its Annex B), which every plain object
  inherits.
\<close>

definition pair_field :: "string \<Rightarrow> bool" where
  "pair_field k = (k = ''_original'' \<or> k = ''_translated'')"

definition object_prototype_names :: "string list" where
  "object_prototype_names =
     [''constructor'', ''hasOwnProperty'', ''isPrototypeOf'', ''propertyIsEnumerable'',
      ''toLocaleString'', ''toString'', ''valueOf'', ''__proto__'',
      ''__defineGetter__'', ''__defineSetter__'', ''__lookupGetter__'', ''__lookupSetter__'']"

definition inherited :: "string \<Rightarrow> bool" where
  "inherited k = (k \<in> set object_prototype_names)"

text \<open>
  The decimal name of an index, as the property names of a string's characters are
  written.
\<close>

function dec :: "nat \<Rightarrow> string" where
  "dec i = (if i < 10 then [char_of (48 + i)] else dec (i div 10) @ [char_of (48 + i mod 10)])"
  by pat_completeness auto
termination
  by (relation "measure id") auto

declare dec.simps [simp del]

text \<open>The own enumerable properties of a string: its characters, by index.\<close>

definition str_entries :: "string \<Rightarrow> (string \<times> jsval) list" where
  "str_entries s = map (\<lambda>i. (dec i, JStr [s ! i])) [0..<length s]"

text \<open>
  \<^verbatim>\<open>for (key in v)\<close> with \<^verbatim>\<open>v[key]\<close>: the own enumerable properties of \<open>v\<close>
  in order (a plain object inherits no enumerable property). Nothing is enumerated for
  \<^verbatim>\<open>null\<close>, \<^verbatim>\<open>undefined\<close> and numbers.
\<close>

fun own_entries :: "jsval \<Rightarrow> (string \<times> jsval) list" where
  "own_entries (JObj kvs) = kvs"
| "own_entries (JStr s) = str_entries s"
| "own_entries v = []"

text \<open>
  \<^verbatim>\<open>v.hasOwnProperty(k)\<close>. The code calls the method through the receiver. An object
  that owns a property named \<^verbatim>\<open>hasOwnProperty\<close> hides the inherited method behind a
  value that is no function, and the call throws. Strings and numbers reach the method
  of \<^verbatim>\<open>Object.prototype\<close>; a string owns its \<^verbatim>\<open>length\<close> and its indices.
\<close>

fun has_own :: "jsval \<Rightarrow> string \<Rightarrow> stop + bool" where
  "has_own JUndefined k = Inl (Throw TypeError)"
| "has_own JNull k = Inl (Throw TypeError)"
| "has_own (JStr s) k = Inr (k = ''length'' \<or> k \<in> set (map fst (str_entries s)))"
| "has_own (JNum i) k = Inr False"
| "has_own (JObj kvs) k =
     (if ''hasOwnProperty'' \<in> set (map fst kvs) then Inl (Throw TypeError)
      else Inr (k \<in> set (map fst kvs)))"

text \<open>
  \<^verbatim>\<open>v[k]\<close>, also written \<^verbatim>\<open>v.k\<close>. An own property is read. A name that a plain
  object does not own is looked up in \<^verbatim>\<open>Object.prototype\<close>: the names listed above
  lead to a built-in, every other name gives \<^verbatim>\<open>undefined\<close>. What a string or a number
  inherits varies with the engine; no built-in has a property of the name of a pair
  field, so these two names give \<^verbatim>\<open>undefined\<close>, and any other name that the string or
  number does not own is taken to lead to a built-in.
\<close>

fun get_prop :: "jsval \<Rightarrow> string \<Rightarrow> stop + jsval" where
  "get_prop JUndefined k = Inl (Throw TypeError)"
| "get_prop JNull k = Inl (Throw TypeError)"
| "get_prop (JStr s) k =
     (if k = ''length'' then Inr (JNum (int (length s)))
      else case map_of (str_entries s) k of
          Some c \<Rightarrow> Inr c
        | None \<Rightarrow> if pair_field k then Inr JUndefined else Inl PrototypeChain)"
| "get_prop (JNum i) k = (if pair_field k then Inr JUndefined else Inl PrototypeChain)"
| "get_prop (JObj kvs) k =
     (case map_of kvs k of
        Some c \<Rightarrow> Inr c
      | None \<Rightarrow> if inherited k then Inl PrototypeChain else Inr JUndefined)"

text \<open>
  The own properties of an object after \<^verbatim>\<open>obj[k] = v\<close> has made or changed an own
  property: an existing property keeps its place and takes the new value, a new one is
  enumerated last.
\<close>

fun assign :: "(string \<times> jsval) list \<Rightarrow> string \<Rightarrow> jsval \<Rightarrow> (string \<times> jsval) list" where
  "assign [] k v = [(k, v)]"
| "assign ((k', v') # kvs) k v =
     (if k' = k then (k, v) # kvs else (k', v') # assign kvs k v)"

text \<open>
  \<^verbatim>\<open>obj[k] = v\<close>. On an object that does not own \<^verbatim>\<open>__proto__\<close> the assignment to
  that name runs the setter of \<^verbatim>\<open>Object.prototype\<close>: it makes no own property; it sets
  the prototype when \<open>v\<close> is an object or \<^verbatim>\<open>null\<close>, and it does nothing otherwise.
\<close>

definition set_prop ::
    "(string \<times> jsval) list \<Rightarrow> string \<Rightarrow> jsval \<Rightarrow> stop + (string \<times> jsval) list" where
  "set_prop kvs k v =
     (if k = ''__proto__'' \<and> k \<notin> set (map fst kvs)
      then (if typeof_object v then Inl PrototypeChain else Inr kvs)
      else Inr (assign kvs k v))"

text \<open>The object literal \<^verbatim>\<open>{ _original: o, _translated: t }\<close>.\<close>

definition leaf :: "jsval \<Rightarrow> jsval \<Rightarrow> jsval" where
  "leaf orig tr = JObj [(''_original'', orig), (''_translated'', tr)]"

section \<open>buildNewData\<close>

record merge_result =
  newData :: jsval
  newUntranslatedKeysCount :: nat

text \<open>
  Lines 83 to 89, for a key whose fresh value \<open>v\<close> is not an object: the value that
  \<^verbatim>\<open>_translated\<close> has after them (\<^verbatim>\<open>null\<close> where it is left as line 81 made it) and
  the counter after them.
\<close>

definition buildLeaf :: "jsval \<Rightarrow> string \<Rightarrow> jsval \<Rightarrow> nat \<Rightarrow> stop + jsval \<times> nat" where
  "buildLeaf data k v n =
     (if v = JStr [] then Inr (JStr [], n)
      else case has_own data k of
          Inl e \<Rightarrow> Inl e
        | Inr own \<Rightarrow>
            if own then
              (case get_prop data k of
                 Inl e \<Rightarrow> Inl e
               | Inr c \<Rightarrow> (case get_prop c ''_translated'' of
                              Inl e \<Rightarrow> Inl e
                            | Inr t \<Rightarrow> Inr (t, n)))
            else Inr (JNull, n + 1))"

text \<open>
  The closure \<^verbatim>\<open>buildNewDataRecursive(newData, data, latestData)\<close>. It fills the
  object \<open>newData\<close> it is given, so the model takes the properties of that object
  and returns them filled; the shared counter \<^verbatim>\<open>newUntranslatedKeysCount\<close> is
  passed in and returned. \<open>buildNewDataLoop\<close> is the body of the \<^verbatim>\<open>for\<close> loop over
  the properties of \<open>latestData\<close> that are still to be visited. In each branch the
  object is stored under the key first (lines 76 and 79) and filled afterwards, in
  place.
\<close>

function buildNewDataRecursive ::
    "(string \<times> jsval) list \<Rightarrow> jsval \<Rightarrow> jsval \<Rightarrow> nat \<Rightarrow> stop + (string \<times> jsval) list \<times> nat"
  and buildNewDataLoop ::
    "(string \<times> jsval) list \<Rightarrow> jsval \<Rightarrow> (string \<times> jsval) list \<Rightarrow> nat
       \<Rightarrow> stop + (string \<times> jsval) list \<times> nat"
where
  "buildNewDataRecursive nd data latestData n =
     buildNewDataLoop nd data (own_entries latestData) n"
| "buildNewDataLoop nd data [] n = Inr (nd, n)"
| "buildNewDataLoop nd data ((k, v) # rest) n =
     (if typeof_object v then
        (case set_prop nd k (JObj []) of
           Inl e \<Rightarrow> Inl e
         | Inr nd' \<Rightarrow>
            (case get_prop data k of
               Inl e \<Rightarrow> Inl e
             | Inr d \<Rightarrow>
                (case buildNewDataRecursive [] (js_or d (JObj [])) v n of
                   Inl e \<Rightarrow> Inl e
                 | Inr (sub, n') \<Rightarrow> buildNewDataLoop (assign nd' k (JObj sub)) data rest n')))
      else
        (case set_prop nd k (leaf v JNull) of
           Inl e \<Rightarrow> Inl e
         | Inr nd' \<Rightarrow>
            (case buildLeaf data k v n of
               Inl e \<Rightarrow> Inl e
             | Inr (t, n') \<Rightarrow> buildNewDataLoop (assign nd' k (leaf v t)) data rest n')))"
  by pat_completeness auto

termination
proof (relation "measure (\<lambda>x. case x of
            Inl (nd, data, latestData, n) \<Rightarrow>
              1 + 2 * size_list (size_prod (\<lambda>_. 0) size) (own_entries latestData)
          | Inr (nd, data, es, n) \<Rightarrow> 2 * size_list (size_prod (\<lambda>_. 0) size) es)", goal_cases)
  case (3 nd data k v rest n)
  then show ?case by (cases v) auto
qed auto

text \<open>
  \<^verbatim>\<open>buildNewData(data, latestData)\<close>: a fresh object, the counter at 0, and
  \<^verbatim>\<open>data || {}\<close> as the processed data.
\<close>

definition buildNewData :: "jsval \<Rightarrow> jsval \<Rightarrow> stop + merge_result" where
  "buildNewData data latestData =
     (case buildNewDataRecursive [] (js_or data (JObj [])) latestData 0 of
        Inl e \<Rightarrow> Inl e
      | Inr (nd, n) \<Rightarrow> Inr \<lparr>newData = JObj nd, newUntranslatedKeysCount = n\<rparr>)"

section \<open>statistics\<close>

record statistics_result =
  overallCount :: nat
  translatedCount :: nat

text \<open>Lines 173 to 178: the two counters after a child with \<^verbatim>\<open>_translated\<close> equal to \<open>t\<close>.\<close>

definition countLeaf :: "jsval \<Rightarrow> statistics_result \<Rightarrow> statistics_result" where
  "countLeaf t st =
     (if t \<noteq> JStr [] then
        st\<lparr>overallCount := overallCount st + 1,
           translatedCount := (if t \<noteq> JNull then translatedCount st + 1 else translatedCount st)\<rparr>
      else st)"

text \<open>
  The closure \<^verbatim>\<open>statisticsRecursive(data)\<close> with the two shared counters passed in and
  returned. On a string that is not empty the recursion never ends: the child at
  index 0 is a string of one character, which owns no \<^verbatim>\<open>_translated\<close> and whose child
  at index 0 is itself.
\<close>

fun statisticsRecursive :: "jsval \<Rightarrow> statistics_result \<Rightarrow> stop + statistics_result"
  and statisticsLoop :: "(string \<times> jsval) list \<Rightarrow> statistics_result \<Rightarrow> stop + statistics_result"
where
  "statisticsRecursive (JObj kvs) st = statisticsLoop kvs st"
| "statisticsRecursive (JStr s) st = (if s = [] then Inr st else Inl (Throw StackOverflow))"
| "statisticsRecursive v st = Inr st"
| "statisticsLoop [] st = Inr st"
| "statisticsLoop ((k, child) # rest) st =
     (case has_own child ''_translated'' of
        Inl e \<Rightarrow> Inl e
      | Inr own \<Rightarrow>
          if own then
            (case get_prop child ''_translated'' of
               Inl e \<Rightarrow> Inl e
             | Inr t \<Rightarrow> statisticsLoop rest (countLeaf t st))
          else
            (case statisticsRecursive child st of
               Inl e \<Rightarrow> Inl e
             | Inr st' \<Rightarrow> statisticsLoop rest st'))"

definition statistics :: "jsval \<Rightarrow> stop + statistics_result" where
  "statistics data = statisticsRecursive data \<lparr>overallCount = 0, translatedCount = 0\<rparr>"

section \<open>unusedTranslatedKeysCount\<close>

text \<open>
  What \<^verbatim>\<open>unusedTranslatedKeysCountRecursive\<close> throws when its \<open>data\<close> is a string
  that is not empty and its \<open>latestData\<close> is \<open>l\<close>. The first key is \<^verbatim>\<open>'0'\<close>:
  \<^verbatim>\<open>l.hasOwnProperty('0')\<close> throws on \<^verbatim>\<open>null\<close>, on \<^verbatim>\<open>undefined\<close> and on an object
  that owns a property \<^verbatim>\<open>hasOwnProperty\<close>; where \<open>l\<close> has no property \<^verbatim>\<open>'0'\<close>,
  \<^verbatim>\<open>statistics\<close> is called on a string child and never ends; where it has one the
  recursion goes on with a string of one character and \<^verbatim>\<open>l['0']\<close>.
\<close>

fun string_data_error :: "jsval \<Rightarrow> error"
  and string_data_error_in :: "(string \<times> jsval) list \<Rightarrow> error"
where
  "string_data_error JUndefined = TypeError"
| "string_data_error JNull = TypeError"
| "string_data_error (JStr s) = StackOverflow"
| "string_data_error (JNum i) = StackOverflow"
| "string_data_error (JObj kvs) =
     (if ''hasOwnProperty'' \<in> set (map fst kvs) then TypeError else string_data_error_in kvs)"
| "string_data_error_in [] = StackOverflow"
| "string_data_error_in ((k, v) # rest) =
     (if k = ''0'' then string_data_error v else string_data_error_in rest)"

text \<open>
  The closure \<^verbatim>\<open>unusedTranslatedKeysCountRecursive(data, latestData)\<close> with the shared
  counter passed in and returned; \<open>unusedTranslatedKeysCountLoop\<close> is the body of the
  loop over the properties of \<open>data\<close> still to be visited. The object that line 118
  passes to \<^verbatim>\<open>statistics\<close> has a computed key, which always makes an own property.
\<close>

fun unusedTranslatedKeysCountRecursive :: "jsval \<Rightarrow> jsval \<Rightarrow> nat \<Rightarrow> stop + nat"
  and unusedTranslatedKeysCountLoop ::
    "jsval \<Rightarrow> (string \<times> jsval) list \<Rightarrow> jsval \<Rightarrow> nat \<Rightarrow> stop + nat"
where
  "unusedTranslatedKeysCountRecursive (JObj kvs) latestData n =
     unusedTranslatedKeysCountLoop (JObj kvs) kvs latestData n"
| "unusedTranslatedKeysCountRecursive (JStr s) latestData n =
     (if s = [] then Inr n else Inl (Throw (string_data_error latestData)))"
| "unusedTranslatedKeysCountRecursive v latestData n = Inr n"
| "unusedTranslatedKeysCountLoop data [] latestData n = Inr n"
| "unusedTranslatedKeysCountLoop data ((k, child) # rest) latestData n =
     (case has_own data ''_translated'' of
        Inl e \<Rightarrow> Inl e
      | Inr skip \<Rightarrow>
          if skip then unusedTranslatedKeysCountLoop data rest latestData n
          else
            (case has_own latestData k of
               Inl e \<Rightarrow> Inl e
             | Inr present \<Rightarrow>
                 if present then
                   (case get_prop latestData k of
                      Inl e \<Rightarrow> Inl e
                    | Inr l \<Rightarrow>
                        (case unusedTranslatedKeysCountRecursive child l n of
                           Inl e \<Rightarrow> Inl e
                         | Inr n' \<Rightarrow> unusedTranslatedKeysCountLoop data rest latestData n'))
                 else
                   (case statistics (JObj [(k, child)]) of
                      Inl e \<Rightarrow> Inl e
                    | Inr st \<Rightarrow>
                        unusedTranslatedKeysCountLoop data rest latestData
                          (n + translatedCount st))))"

definition unusedTranslatedKeysCount :: "jsval \<Rightarrow> jsval \<Rightarrow> stop + nat" where
  "unusedTranslatedKeysCount data latestData =
     (if \<not> truthy data then Inr 0
      else unusedTranslatedKeysCountRecursive data latestData 0)"

section \<open>processedDataToRaw\<close>

text \<open>
  \<open>processedDataToRawLoop\<close> is the loop that fills \<open>rawData\<close>. A string that is not
  empty sends the recursion down its first character for ever.
\<close>

fun processedDataToRaw :: "jsval \<Rightarrow> stop + jsval"
  and processedDataToRawLoop ::
    "(string \<times> jsval) list \<Rightarrow> (string \<times> jsval) list \<Rightarrow> stop + (string \<times> jsval) list"
where
  "processedDataToRaw (JObj kvs) =
     (case processedDataToRawLoop [] kvs of Inl e \<Rightarrow> Inl e | Inr raw \<Rightarrow> Inr (JObj raw))"
| "processedDataToRaw (JStr s) = (if s = [] then Inr (JObj []) else Inl (Throw StackOverflow))"
| "processedDataToRaw v = Inr (JObj [])"
| "processedDataToRawLoop rawData [] = Inr rawData"
| "processedDataToRawLoop rawData ((k, child) # rest) =
     (case has_own child ''_translated'' of
        Inl e \<Rightarrow> Inl e
      | Inr own \<Rightarrow>
          if own then
            (case get_prop child ''_translated'' of
               Inl e \<Rightarrow> Inl e
             | Inr t \<Rightarrow>
                 (case set_prop rawData k t of
                    Inl e \<Rightarrow> Inl e
                  | Inr rawData' \<Rightarrow> processedDataToRawLoop rawData' rest))
          else
            (case processedDataToRaw child of
               Inl e \<Rightarrow> Inl e
             | Inr r \<Rightarrow>
                 (case set_prop rawData k r of
                    Inl e \<Rightarrow> Inl e
                  | Inr rawData' \<Rightarrow> processedDataToRawLoop rawData' rest)))"

section \<open>untranslatedKeysGenerator\<close>

record yielded =
  key :: jsval
  chain :: "string list"

text \<open>
  The generator is run to its end: the model gives the objects it yields, in order, and
  what ends the run, if it does not end by itself.
\<close>

fun untranslatedKeysGenerator :: "jsval \<Rightarrow> string list \<Rightarrow> yielded list \<times> stop option"
  and untranslatedKeysLoop ::
    "(string \<times> jsval) list \<Rightarrow> string list \<Rightarrow> yielded list \<times> stop option"
where
  "untranslatedKeysGenerator (JObj kvs) ch = untranslatedKeysLoop kvs ch"
| "untranslatedKeysGenerator (JStr s) ch =
     ([], if s = [] then None else Some (Throw StackOverflow))"
| "untranslatedKeysGenerator v ch = ([], None)"
| "untranslatedKeysLoop [] ch = ([], None)"
| "untranslatedKeysLoop ((k, child) # rest) ch =
     (case has_own child ''_translated'' of
        Inl e \<Rightarrow> ([], Some e)
      | Inr own \<Rightarrow>
          if own then
            (case get_prop child ''_translated'' of
               Inl e \<Rightarrow> ([], Some e)
             | Inr t \<Rightarrow>
                 (case untranslatedKeysLoop rest ch of
                    (ys, r) \<Rightarrow>
                      ((if t = JNull then [\<lparr>key = child, chain = ch @ [k]\<rparr>] else []) @ ys, r)))
          else
            (case untranslatedKeysGenerator child (ch @ [k]) of
               (ys, Some e) \<Rightarrow> (ys, Some e)
             | (ys, None) \<Rightarrow>
                 (case untranslatedKeysLoop rest ch of (zs, r) \<Rightarrow> (ys @ zs, r))))"

section \<open>The trees of the data model\<close>

text \<open>
  A leaf pair is an object with exactly the two properties \<^verbatim>\<open>_original\<close>, a string, and
  \<^verbatim>\<open>_translated\<close>, a string or \<^verbatim>\<open>null\<close> when the translation is absent.
\<close>

fun is_translation :: "jsval \<Rightarrow> bool" where
  "is_translation JNull = True"
| "is_translation (JStr s) = True"
| "is_translation v = False"

fun is_string :: "jsval \<Rightarrow> bool" where
  "is_string (JStr s) = True"
| "is_string v = False"

fun is_leaf_pair :: "jsval \<Rightarrow> bool" where
  "is_leaf_pair (JObj kvs) =
     (distinct (map fst kvs) \<and> set (map fst kvs) = {''_original'', ''_translated''} \<and>
      (case map_of kvs ''_original'' of Some orig \<Rightarrow> is_string orig | None \<Rightarrow> False) \<and>
      (case map_of kvs ''_translated'' of Some t \<Rightarrow> is_translation t | None \<Rightarrow> False))"
| "is_leaf_pair v = False"

text \<open>
  A plain key is a key that is neither the name of a pair field nor the name of a
  property of \<^verbatim>\<open>Object.prototype\<close>. The theorems below are about trees with plain
  keys. The code tells a leaf from a mapping by the presence of \<^verbatim>\<open>_translated\<close>, so
  a mapping with such a key cannot be told from a leaf; it calls \<^verbatim>\<open>hasOwnProperty\<close>
  through the object and reads \<^verbatim>\<open>data[key]\<close> without asking whether the property
  is the object's own, so a key of the name of an inherited property is not a key like
  any other.
\<close>

definition plain_key :: "string \<Rightarrow> bool" where
  "plain_key k = (\<not> pair_field k \<and> \<not> inherited k)"

text \<open>
  A processed tree is a mapping whose keys are distinct and plain, and whose values are
  leaf pairs or processed trees.
\<close>

fun is_processed :: "jsval \<Rightarrow> bool"
  and processed_entries :: "(string \<times> jsval) list \<Rightarrow> bool"
where
  "is_processed (JObj kvs) = (distinct (map fst kvs) \<and> processed_entries kvs)"
| "is_processed v = False"
| "processed_entries [] = True"
| "processed_entries ((k, c) # rest) =
     (plain_key k \<and> (is_leaf_pair c \<or> is_processed c) \<and> processed_entries rest)"

text \<open>A processed node is a leaf pair or a processed tree.\<close>

definition is_node :: "jsval \<Rightarrow> bool" where
  "is_node v = (is_leaf_pair v \<or> is_processed v)"

text \<open>
  A raw tree mirrors a processed tree, with strings for leaves: a mapping whose keys are
  distinct and plain, and whose values are strings or raw trees.
\<close>

fun is_raw :: "jsval \<Rightarrow> bool"
  and raw_entries :: "(string \<times> jsval) list \<Rightarrow> bool"
where
  "is_raw (JObj kvs) = (distinct (map fst kvs) \<and> raw_entries kvs)"
| "is_raw v = False"
| "raw_entries [] = True"
| "raw_entries ((k, v) # rest) =
     (plain_key k \<and> (is_string v \<or> is_raw v) \<and> raw_entries rest)"

text \<open>The node reached from \<open>v\<close> by a path of keys, if there is one.\<close>

fun node_at :: "jsval \<Rightarrow> string list \<Rightarrow> jsval option" where
  "node_at v [] = Some v"
| "node_at (JObj kvs) (k # p) = (case map_of kvs k of None \<Rightarrow> None | Some c \<Rightarrow> node_at c p)"
| "node_at v (k # p) = None"

text \<open>The two fields of a leaf.\<close>

fun field :: "string \<Rightarrow> jsval \<Rightarrow> jsval" where
  "field f (JObj kvs) = (case map_of kvs f of Some x \<Rightarrow> x | None \<Rightarrow> JUndefined)"
| "field f v = JUndefined"

definition original_of :: "jsval \<Rightarrow> jsval" where
  "original_of = field ''_original''"

definition translated_of :: "jsval \<Rightarrow> jsval" where
  "translated_of = field ''_translated''"

text \<open>The test by which the code takes a child for a leaf.\<close>

definition is_leaf :: "jsval \<Rightarrow> bool" where
  "is_leaf c = (has_own c ''_translated'' = Inr True)"

text \<open>
  The leaves of a processed tree, each with its path from the root, in depth-first
  order.
\<close>

fun processed_leaves :: "jsval \<Rightarrow> (string list \<times> jsval) list"
  and processed_leaves_in :: "(string \<times> jsval) list \<Rightarrow> (string list \<times> jsval) list"
where
  "processed_leaves (JObj kvs) = processed_leaves_in kvs"
| "processed_leaves v = []"
| "processed_leaves_in [] = []"
| "processed_leaves_in ((k, c) # rest) =
     (if is_leaf c then [([k], c)] else map (\<lambda>(p, x). (k # p, x)) (processed_leaves c))
     @ processed_leaves_in rest"

text \<open>The leaves of a raw tree, each with its path, in depth-first order.\<close>

fun raw_leaves :: "jsval \<Rightarrow> (string list \<times> jsval) list"
  and raw_leaves_in :: "(string \<times> jsval) list \<Rightarrow> (string list \<times> jsval) list"
where
  "raw_leaves (JObj kvs) = raw_leaves_in kvs"
| "raw_leaves v = []"
| "raw_leaves_in [] = []"
| "raw_leaves_in ((k, v) # rest) =
     (if typeof_object v then map (\<lambda>(p, x). (k # p, x)) (raw_leaves v) else [([k], v)])
     @ raw_leaves_in rest"

section \<open>What the functions are compared with\<close>

text \<open>
  The test that \<^verbatim>\<open>statistics\<close> makes, leaf by leaf (lines 173 and 175): a leaf is
  counted unless its \<^verbatim>\<open>_translated\<close> is the empty string, and a counted leaf is
  counted as translated unless its \<^verbatim>\<open>_translated\<close> is \<^verbatim>\<open>null\<close>.
\<close>

definition counted :: "jsval \<Rightarrow> bool" where
  "counted c = (translated_of c \<noteq> JStr [])"

definition counted_translated :: "jsval \<Rightarrow> bool" where
  "counted_translated c = (translated_of c \<noteq> JStr [] \<and> translated_of c \<noteq> JNull)"

definition count_overall :: "(string list \<times> jsval) list \<Rightarrow> nat" where
  "count_overall ls = length (filter counted (map snd ls))"

definition count_translated :: "(string list \<times> jsval) list \<Rightarrow> nat" where
  "count_translated ls = length (filter counted_translated (map snd ls))"

text \<open>
  The counting rule in the words of the specification: a leaf whose original is the
  empty string is left out of both counts; every other leaf is counted, and is counted as
  translated when its translation is present.
\<close>

definition spec_counted :: "jsval \<Rightarrow> bool" where
  "spec_counted c = (original_of c \<noteq> JStr [])"

definition spec_counted_translated :: "jsval \<Rightarrow> bool" where
  "spec_counted_translated c = (original_of c \<noteq> JStr [] \<and> translated_of c \<noteq> JNull)"

definition spec_overall :: "(string list \<times> jsval) list \<Rightarrow> nat" where
  "spec_overall ls = length (filter spec_counted (map snd ls))"

definition spec_translated :: "(string list \<times> jsval) list \<Rightarrow> nat" where
  "spec_translated ls = length (filter spec_counted_translated (map snd ls))"

text \<open>
  A leaf is settled when its translation is the empty string exactly when its original
  is: the test of \<^verbatim>\<open>statistics\<close> and the rule of the specification say the same of
  a settled leaf. The merge makes a leaf with an empty original settled (line 84); it
  carries an empty translation forward to an original that is no longer empty.
\<close>

definition settled :: "jsval \<Rightarrow> bool" where
  "settled c = (translated_of c = JStr [] \<longleftrightarrow> original_of c = JStr [])"

text \<open>
  The raw form of a processed tree in the words of the specification: a leaf gives its
  translated value, a branch is transformed key by key.
\<close>

fun spec_toRaw :: "jsval \<Rightarrow> jsval"
  and spec_toRaw_in :: "(string \<times> jsval) list \<Rightarrow> (string \<times> jsval) list"
where
  "spec_toRaw (JObj kvs) = JObj (spec_toRaw_in kvs)"
| "spec_toRaw v = JObj []"
| "spec_toRaw_in [] = []"
| "spec_toRaw_in ((k, c) # rest) =
     (k, if is_leaf c then translated_of c else spec_toRaw c) # spec_toRaw_in rest"

text \<open>
  The untranslated leaves of a list of leaves, as the generator yields them below a chain
  of keys \<open>ch\<close>.
\<close>

definition spec_untranslated :: "string list \<Rightarrow> (string list \<times> jsval) list \<Rightarrow> yielded list" where
  "spec_untranslated ch ls =
     map (\<lambda>(p, c). \<lparr>key = c, chain = ch @ p\<rparr>) (filter (\<lambda>(p, c). translated_of c = JNull) ls)"

section \<open>The merge as a function of the two trees\<close>

text \<open>
  What \<^verbatim>\<open>buildNewData\<close> computes on trees with plain keys, written as a recursion on
  the fresh tree with no accumulator and no counter. The lemma \<open>buildNewData_induct\<close>
  relates the code to it; the claims about the merge are proved through it.
\<close>

fun has_key :: "jsval \<Rightarrow> string \<Rightarrow> bool" where
  "has_key (JObj kvs) k = (k \<in> set (map fst kvs))"
| "has_key v k = False"

text \<open>\<^verbatim>\<open>data[key] || {}\<close>, the processed data passed down under a key.\<close>

definition child_data :: "jsval \<Rightarrow> string \<Rightarrow> jsval" where
  "child_data d k = js_or (field k d) (JObj [])"

definition merge_translation :: "jsval \<Rightarrow> string \<Rightarrow> jsval \<Rightarrow> jsval" where
  "merge_translation d k v =
     (if v = JStr [] then JStr []
      else if has_key d k then field ''_translated'' (field k d) else JNull)"

definition merge_leaf :: "jsval \<Rightarrow> string \<Rightarrow> jsval \<Rightarrow> jsval" where
  "merge_leaf d k v = leaf v (merge_translation d k v)"

definition leaf_count :: "jsval \<Rightarrow> string \<Rightarrow> jsval \<Rightarrow> nat" where
  "leaf_count d k v = (if v \<noteq> JStr [] \<and> \<not> has_key d k then 1 else 0)"

fun merge_value :: "jsval \<Rightarrow> string \<Rightarrow> jsval \<Rightarrow> jsval"
  and merge_entries :: "jsval \<Rightarrow> (string \<times> jsval) list \<Rightarrow> (string \<times> jsval) list"
where
  "merge_value d k (JObj kvs) = JObj (merge_entries (child_data d k) kvs)"
| "merge_value d k JNull = JObj []"
| "merge_value d k v = merge_leaf d k v"
| "merge_entries d [] = []"
| "merge_entries d ((k, v) # rest) = (k, merge_value d k v) # merge_entries d rest"

fun merge_value_count :: "jsval \<Rightarrow> string \<Rightarrow> jsval \<Rightarrow> nat"
  and merge_count :: "jsval \<Rightarrow> (string \<times> jsval) list \<Rightarrow> nat"
where
  "merge_value_count d k (JObj kvs) = merge_count (child_data d k) kvs"
| "merge_value_count d k JNull = 0"
| "merge_value_count d k v = leaf_count d k v"
| "merge_count d [] = 0"
| "merge_count d ((k, v) # rest) = merge_value_count d k v + merge_count d rest"

text \<open>The processed data that the recursion holds when it has gone down a path.\<close>

fun data_at :: "jsval \<Rightarrow> string list \<Rightarrow> jsval" where
  "data_at d [] = d"
| "data_at d (k # p) = data_at (child_data d k) p"

text \<open>
  A tree of objects: an object with no property \<^verbatim>\<open>hasOwnProperty\<close> of its own whose
  values under all keys but the two pair fields are trees of objects again. Every leaf
  pair and every processed tree is one, and so is every tree that \<^verbatim>\<open>buildNewData\<close>
  returns for a raw tree.
\<close>

fun object_tree :: "jsval \<Rightarrow> bool"
  and object_tree_in :: "(string \<times> jsval) list \<Rightarrow> bool"
where
  "object_tree (JObj kvs) = object_tree_in kvs"
| "object_tree v = False"
| "object_tree_in [] = True"
| "object_tree_in ((k, c) # rest) =
     (k \<noteq> ''hasOwnProperty'' \<and> (pair_field k \<or> object_tree c) \<and> object_tree_in rest)"

text \<open>
  A fresh leaf meets a leaf when its value is the empty string, or the existing tree has
  nothing at its path, or the existing tree has a leaf pair there. The case left is a
  fresh leaf that is not empty at a path where the existing tree has a mapping: there
  line 86 reads \<^verbatim>\<open>_translated\<close> off the mapping.
\<close>

definition meets_leaf :: "jsval \<Rightarrow> string list \<times> jsval \<Rightarrow> bool" where
  "meets_leaf existing =
     (\<lambda>(p, v). v = JStr [] \<or>
        (case node_at existing p of None \<Rightarrow> True | Some e \<Rightarrow> is_leaf_pair e))"

text \<open>
  The fresh leaves that \<^verbatim>\<open>buildNewData\<close> counts: those whose value is not the empty
  string and whose path is absent from the existing tree.
\<close>

definition new_leaf :: "jsval \<Rightarrow> string list \<times> jsval \<Rightarrow> bool" where
  "new_leaf existing = (\<lambda>(p, v). v \<noteq> JStr [] \<and> node_at existing p = None)"

text \<open>
  The fresh leaves that the specification counts: those whose value is not the empty
  string and whose path is absent from the existing tree, or whose counterpart there has
  an absent translation.
\<close>

fun is_absent :: "jsval \<Rightarrow> bool" where
  "is_absent JNull = True"
| "is_absent JUndefined = True"
| "is_absent v = False"

definition spec_new_leaf :: "jsval \<Rightarrow> string list \<times> jsval \<Rightarrow> bool" where
  "spec_new_leaf existing =
     (\<lambda>(p, v). v \<noteq> JStr [] \<and>
        (case node_at existing p of None \<Rightarrow> True | Some e \<Rightarrow> is_absent (translated_of e)))"

text \<open>
  The leaves of the existing tree that are translated by the test of \<^verbatim>\<open>statistics\<close>
  and whose path is absent from the merged tree.
\<close>

definition unused_leaf :: "jsval \<Rightarrow> string list \<times> jsval \<Rightarrow> bool" where
  "unused_leaf merged = (\<lambda>(p, c). counted_translated c \<and> node_at merged p = None)"

text \<open>
  The leaves of the existing tree that are translated by the rule of the specification
  and whose path is absent from the merged tree.
\<close>

definition spec_unused_leaf :: "jsval \<Rightarrow> string list \<times> jsval \<Rightarrow> bool" where
  "spec_unused_leaf merged = (\<lambda>(p, c). spec_counted_translated c \<and> node_at merged p = None)"

section \<open>The data model in the words of the specification\<close>

text \<open>
  The specification lets a key be any string: a processed node is a leaf pair or a
  mapping of distinct keys to processed nodes, and a raw node is a string or a mapping of
  distinct keys to raw nodes.
\<close>

fun processed_node :: "jsval \<Rightarrow> bool"
  and processed_nodes :: "(string \<times> jsval) list \<Rightarrow> bool"
where
  "processed_node (JObj kvs) =
     (is_leaf_pair (JObj kvs) \<or> (distinct (map fst kvs) \<and> processed_nodes kvs))"
| "processed_node v = False"
| "processed_nodes [] = True"
| "processed_nodes ((k, c) # rest) = (processed_node c \<and> processed_nodes rest)"

fun raw_node :: "jsval \<Rightarrow> bool"
  and raw_nodes :: "(string \<times> jsval) list \<Rightarrow> bool"
where
  "raw_node (JObj kvs) = (distinct (map fst kvs) \<and> raw_nodes kvs)"
| "raw_node (JStr s) = True"
| "raw_node v = False"
| "raw_nodes [] = True"
| "raw_nodes ((k, v) # rest) = (raw_node v \<and> raw_nodes rest)"

section \<open>Examples\<close>

text \<open>
  A processed tree, a fresh raw tree and their merge. Under \<^verbatim>\<open>en\<close> the key \<^verbatim>\<open>a\<close>
  is kept, \<^verbatim>\<open>b\<close> is new and empty, \<^verbatim>\<open>c\<close> is new, \<^verbatim>\<open>gone\<close> has been removed
  and \<^verbatim>\<open>menu\<close>, a leaf before, is now a mapping.
\<close>

definition example_existing :: jsval where
  "example_existing =
     JObj [(''en'', JObj [(''a'', leaf (JStr ''Hi'') (JStr ''Salut'')),
                          (''gone'', leaf (JStr ''Gone'') (JStr ''Parti'')),
                          (''menu'', leaf (JStr ''Menu'') (JStr ''Carte''))])]"

definition example_fresh :: jsval where
  "example_fresh =
     JObj [(''en'', JObj [(''a'', JStr ''Hi''),
                          (''b'', JStr ''''),
                          (''c'', JStr ''New''),
                          (''menu'', JObj [(''home'', JStr ''Home'')])])]"

definition example_merged :: jsval where
  "example_merged =
     JObj [(''en'', JObj [(''a'', leaf (JStr ''Hi'') (JStr ''Salut'')),
                          (''b'', leaf (JStr '''') (JStr '''')),
                          (''c'', leaf (JStr ''New'') JNull),
                          (''menu'', JObj [(''home'', leaf (JStr ''Home'') JNull)])])]"

text \<open>
  A processed tree and what is left of it upstream: the leaf \<^verbatim>\<open>y\<close> and the subtree
  \<^verbatim>\<open>z\<close> have been removed.
\<close>

definition example_old :: jsval where
  "example_old =
     JObj [(''x'', leaf (JStr ''Old'') (JStr ''Vieux'')),
           (''y'', leaf (JStr ''Gone'') (JStr ''Parti'')),
           (''z'', JObj [(''u'', leaf (JStr ''One'') (JStr ''Un'')),
                         (''v'', leaf (JStr ''Two'') JNull)])]"

definition example_new :: jsval where
  "example_new = JObj [(''x'', leaf (JStr ''Old'') (JStr ''Vieux''))]"

text \<open>
  A leaf with the name of the method that the code calls through its objects, and a
  leaf whose upstream string was empty and has since been filled in.
\<close>

definition example_method_leaf :: jsval where
  "example_method_leaf = leaf (JStr ''Has'') (JStr ''A'')"

definition example_filled_before :: jsval where
  "example_filled_before = JObj [(''a'', leaf (JStr '''') (JStr ''''))]"

definition example_filled_fresh :: jsval where
  "example_filled_fresh = JObj [(''a'', JStr ''Hi'')]"

definition example_filled_after :: jsval where
  "example_filled_after = JObj [(''a'', leaf (JStr ''Hi'') (JStr ''''))]"

section \<open>Leaves and mappings\<close>

lemma plain_keyD:
  "plain_key k \<Longrightarrow> \<not> pair_field k"
  "plain_key k \<Longrightarrow> \<not> inherited k"
  "plain_key k \<Longrightarrow> k \<noteq> ''hasOwnProperty''"
  "plain_key k \<Longrightarrow> k \<noteq> ''__proto__''"
  "plain_key k \<Longrightarrow> k \<noteq> ''_translated''"
  "plain_key k \<Longrightarrow> k \<noteq> ''_original''"
  by (auto simp: plain_key_def pair_field_def inherited_def object_prototype_names_def)

lemma processed_entries_keys:
  "processed_entries kvs \<Longrightarrow> k \<in> set (map fst kvs) \<Longrightarrow> plain_key k"
  by (induction kvs) (auto simp: rev_image_eqI)

lemma processed_has_own:
  assumes "is_processed c"
  shows "has_own c k = Inr (k \<in> set (map fst (own_entries c)))"
proof (cases c)
  case (JObj kvs)
  with assms have "processed_entries kvs" by simp
  then have "''hasOwnProperty'' \<notin> set (map fst kvs)"
    using processed_entries_keys [of kvs "''hasOwnProperty''"] plain_keyD(3) by blast
  with JObj show ?thesis by simp
qed (use assms in simp_all)

lemma processed_not_leaf:
  assumes "is_processed c"
  shows "has_own c ''_translated'' = Inr False"
proof (cases c)
  case (JObj kvs)
  with assms have "processed_entries kvs" by simp
  then have "''_translated'' \<notin> set (map fst kvs)"
    using processed_entries_keys [of kvs "''_translated''"] plain_keyD(5) by blast
  with JObj processed_has_own [OF assms, of "''_translated''"] show ?thesis by simp
qed (use assms in simp_all)

lemma leaf_pair_has_own: "is_leaf_pair c \<Longrightarrow> has_own c ''_translated'' = Inr True"
  by (cases c) auto

lemma leaf_pair_get: "is_leaf_pair c \<Longrightarrow> get_prop c ''_translated'' = Inr (translated_of c)"
  by (cases c) (auto simp: translated_of_def split: option.splits)

lemma node_is_leaf: "is_leaf_pair c \<or> is_processed c \<Longrightarrow> is_leaf c = is_leaf_pair c"
  using processed_not_leaf leaf_pair_has_own by (auto simp: is_leaf_def)

lemma assign_fresh: "k \<notin> set (map fst kvs) \<Longrightarrow> assign kvs k v = kvs @ [(k, v)]"
  by (induction kvs) auto

lemma assign_last: "k \<notin> set (map fst kvs) \<Longrightarrow> assign (kvs @ [(k, u)]) k v = kvs @ [(k, v)]"
  by (induction kvs) auto

lemma set_prop_fresh:
  "k \<notin> set (map fst kvs) \<Longrightarrow> k \<noteq> ''__proto__'' \<Longrightarrow> set_prop kvs k v = Inr (kvs @ [(k, v)])"
  by (simp add: set_prop_def assign_fresh)

lemma map_snd_prefix: "map snd (map (\<lambda>(p, x). (k # p, x)) ls) = map snd ls"
  by (induction ls) auto

lemma processed_leaves_in_hd:
  "(p, c) \<in> set (processed_leaves_in kvs) \<Longrightarrow> \<exists>k q. p = k # q \<and> k \<in> set (map fst kvs)"
  by (induction kvs) (force split: if_splits)+

section \<open>statistics\<close>

lemma count_overall_simps:
  "count_overall [] = 0"
  "count_overall (xs @ ys) = count_overall xs + count_overall ys"
  "count_overall ((p, c) # ls) = (if counted c then 1 else 0) + count_overall ls"
  "count_overall (map (\<lambda>(p, x). (k # p, x)) ls) = count_overall ls"
  unfolding count_overall_def map_snd_prefix by simp_all

lemma count_translated_simps:
  "count_translated [] = 0"
  "count_translated (xs @ ys) = count_translated xs + count_translated ys"
  "count_translated ((p, c) # ls) = (if counted_translated c then 1 else 0) + count_translated ls"
  "count_translated (map (\<lambda>(p, x). (k # p, x)) ls) = count_translated ls"
  unfolding count_translated_def map_snd_prefix by simp_all

lemma statistics_induct:
  "is_processed t \<Longrightarrow> statisticsRecursive t st =
      Inr \<lparr>overallCount = overallCount st + count_overall (processed_leaves t),
           translatedCount = translatedCount st + count_translated (processed_leaves t)\<rparr>"
  "processed_entries kvs \<Longrightarrow> statisticsLoop kvs st =
      Inr \<lparr>overallCount = overallCount st + count_overall (processed_leaves_in kvs),
           translatedCount = translatedCount st + count_translated (processed_leaves_in kvs)\<rparr>"
proof (induction t st and kvs st rule: statisticsRecursive_statisticsLoop.induct)
  case (5 k child rest st)
  then have node: "is_leaf_pair child \<or> is_processed child" and rest: "processed_entries rest"
    by auto
  show ?case
  proof (cases "is_leaf_pair child")
    case True
    then have own: "has_own child ''_translated'' = Inr True"
      and get: "get_prop child ''_translated'' = Inr (translated_of child)"
      by (simp_all add: leaf_pair_has_own leaf_pair_get)
    from "5.IH"(1) [OF own _ get rest] own
    show ?thesis
      by (simp add: own get is_leaf_def count_overall_simps count_translated_simps
            countLeaf_def counted_def counted_translated_def)
  next
    case False
    with node have p: "is_processed child" by simp
    then have own: "has_own child ''_translated'' = Inr False" by (rule processed_not_leaf)
    from "5.IH"(2) [OF own _ p] have r: "statisticsRecursive child st =
       Inr \<lparr>overallCount = overallCount st + count_overall (processed_leaves child),
         translatedCount = translatedCount st + count_translated (processed_leaves child)\<rparr>"
      by simp
    from "5.IH"(3) [OF own _ r rest]
    show ?thesis
      by (simp add: own r is_leaf_def count_overall_simps count_translated_simps)
  qed
qed (auto simp: count_overall_simps count_translated_simps)

text \<open>
  What \<^verbatim>\<open>statistics\<close> returns for a processed tree: it leaves a leaf out of both
  counts when the translated value of the leaf is the empty string, and it does not look
  at the original.
\<close>

lemma statistics_test:
  "is_processed t \<Longrightarrow>
   statistics t = Inr \<lparr>overallCount = length (filter counted (map snd (processed_leaves t))),
                       translatedCount =
                         length (filter counted_translated (map snd (processed_leaves t)))\<rparr>"
  using statistics_induct(1) [of t "\<lparr>overallCount = 0, translatedCount = 0\<rparr>"]
  by (simp add: statistics_def count_overall_def count_translated_def)

text \<open>
  C4. The claim is that \<^verbatim>\<open>statistics\<close> leaves out the leaves whose original is the
  empty string and counts every other leaf. The code tests \<^verbatim>\<open>_translated\<close> in the
  place of \<^verbatim>\<open>_original\<close> (line 173), though its comment on line 172 and the test of
  the merge on line 83 are about strings that are empty upstream. The two differ on a leaf
  that the merge itself makes: when a string that was empty upstream has been filled in,
  the merge carries the empty translation forward, and the leaf, whose original is
  \<^verbatim>\<open>'Hi'\<close>, is then counted neither in \<^verbatim>\<open>overallCount\<close> nor in
  \<^verbatim>\<open>translatedCount\<close>, and the generator does not offer it for translation. The rule of
  the claim counts it in both.
\<close>

theorem statistics_filled_leaf_uncounted:
  "buildNewData example_filled_before example_filled_fresh
     = Inr \<lparr>newData = example_filled_after, newUntranslatedKeysCount = 0\<rparr> \<and>
   is_processed example_filled_after \<and>
   map (original_of \<circ> snd) (processed_leaves example_filled_after) = [JStr ''Hi''] \<and>
   spec_overall (processed_leaves example_filled_after) = 1 \<and>
   spec_translated (processed_leaves example_filled_after) = 1 \<and>
   statistics example_filled_after = Inr \<lparr>overallCount = 0, translatedCount = 0\<rparr> \<and>
   untranslatedKeysGenerator example_filled_after [] = ([], None)"
  by code_simp

section \<open>processedDataToRaw\<close>

lemma processedDataToRaw_induct:
  "is_processed t \<Longrightarrow> processedDataToRaw t = Inr (spec_toRaw t)"
  "processed_entries kvs \<Longrightarrow> distinct (map fst kvs) \<Longrightarrow>
     set (map fst acc) \<inter> set (map fst kvs) = {} \<Longrightarrow>
     processedDataToRawLoop acc kvs = Inr (acc @ spec_toRaw_in kvs)"
proof (induction t and acc kvs rule: processedDataToRaw_processedDataToRawLoop.induct)
  case (1 kvs)
  then show ?case by simp
next
  case (5 acc k child rest)
  then have node: "is_leaf_pair child \<or> is_processed child" and rest: "processed_entries rest"
    and d: "distinct (map fst rest)" and fresh: "k \<notin> set (map fst acc)"
    and disj: "set (map fst (acc @ [(k, x)])) \<inter> set (map fst rest) = {}"
    and plain: "plain_key k" for x
    by auto
  from fresh plain have set: "set_prop acc k x = Inr (acc @ [(k, x)])" for x
    by (simp add: set_prop_fresh plain_keyD)
  show ?case
  proof (cases "is_leaf_pair child")
    case True
    then have own: "has_own child ''_translated'' = Inr True"
      and get: "get_prop child ''_translated'' = Inr (translated_of child)"
      by (simp_all add: leaf_pair_has_own leaf_pair_get)
    from "5.IH"(1) [OF own _ get set rest d disj]
    show ?thesis
      by (simp add: own get is_leaf_def set)
  next
    case False
    with node have p: "is_processed child" by simp
    then have own: "has_own child ''_translated'' = Inr False" by (rule processed_not_leaf)
    from "5.IH"(2) [OF own _ p] have r: "processedDataToRaw child = Inr (spec_toRaw child)"
      by simp
    from "5.IH"(3) [OF own _ r set rest d disj]
    show ?thesis
      by (simp add: own r is_leaf_def set)
  qed
qed auto

lemma spec_toRaw_leaves:
  "is_processed t \<Longrightarrow> (p, c) \<in> set (processed_leaves t) \<Longrightarrow>
     node_at (spec_toRaw t) p = Some (translated_of c)"
  "processed_entries kvs \<Longrightarrow> distinct (map fst kvs) \<Longrightarrow> (p, c) \<in> set (processed_leaves_in kvs) \<Longrightarrow>
     node_at (JObj (spec_toRaw_in kvs)) p = Some (translated_of c)"
proof (induction t and kvs arbitrary: p c and p c rule: processed_leaves_processed_leaves_in.induct)
  case (4 k child rest)
  from "4.prems" have node: "is_leaf_pair child \<or> is_processed child" and rest: "processed_entries rest"
    and d: "distinct (map fst rest)" and fresh: "k \<notin> set (map fst rest)"
    by auto
  from "4.prems"(3) consider
      (here) "is_leaf child" "p = [k]" "c = child"
    | (below) q where "\<not> is_leaf child" "p = k # q" "(q, c) \<in> set (processed_leaves child)"
    | (later) "(p, c) \<in> set (processed_leaves_in rest)"
    by (auto split: if_splits)
  then show ?case
  proof cases
    case here
    then show ?thesis by simp
  next
    case below
    with node have "is_processed child" by (simp add: node_is_leaf)
    from "4.IH"(1) [OF below(1) this below(3)] below show ?thesis by simp
  next
    case later
    from "4.IH"(2) [OF rest d later] have r: "node_at (JObj (spec_toRaw_in rest)) p = Some (translated_of c)" .
    from processed_leaves_in_hd [OF later] obtain k' q where "p = k' # q" "k' \<in> set (map fst rest)"
      by blast
    with fresh r show ?thesis by auto
  qed
qed auto

text \<open>
  C8, as amended. On every processed tree, that is a mapping at the root, with leaf pairs
  for leaves and with plain keys, \<^verbatim>\<open>processedDataToRaw\<close> returns and does not throw;
  what it returns is the raw form of the tree: every leaf is mapped to its translated
  value (\<^verbatim>\<open>null\<close> when the translation is absent) at the path of the leaf, and every
  branch is transformed key by key.
\<close>

theorem processedDataToRaw_total:
  "is_processed t \<Longrightarrow>
     processedDataToRaw t = Inr (spec_toRaw t) \<and>
     (\<forall>(p, c) \<in> set (processed_leaves t). node_at (spec_toRaw t) p = Some (translated_of c))"
  using processedDataToRaw_induct(1) spec_toRaw_leaves(1) by blast

theorem processedDataToRaw_total_witness:
  "is_processed (JObj [(''en'', JObj [(''a'', leaf (JStr ''Hi'') (JStr ''Salut'')),
                                      (''c'', leaf (JStr ''New'') JNull)])]) \<and>
   processedDataToRaw (JObj [(''en'', JObj [(''a'', leaf (JStr ''Hi'') (JStr ''Salut'')),
                                            (''c'', leaf (JStr ''New'') JNull)])])
     = Inr (JObj [(''en'', JObj [(''a'', JStr ''Salut''), (''c'', JNull)])])"
  using processedDataToRaw_total [of "JObj [(''en'', JObj [(''a'', leaf (JStr ''Hi'') (JStr ''Salut'')),
                                      (''c'', leaf (JStr ''New'') JNull)])]"]
  by (simp add: leaf_def pair_field_def plain_key_def inherited_def object_prototype_names_def
        is_leaf_def translated_of_def)

text \<open>
  C8 as it is stated fails. A leaf pair is a well-formed processed node, and on a leaf
  pair the function does not return: it takes the string under \<^verbatim>\<open>_original\<close> for a
  branch and recurses into it without end. A mapping with a key \<^verbatim>\<open>hasOwnProperty\<close> is
  a well-formed processed node, and where such a mapping is a child the function throws:
  line 138 calls the leaf under that key for a function.
\<close>

theorem processedDataToRaw_leaf_counterexample:
  "is_node (leaf (JStr ''Hi'') (JStr ''Salut'')) \<and>
   processedDataToRaw (leaf (JStr ''Hi'') (JStr ''Salut'')) = Inl (Throw StackOverflow) \<and>
   processed_node (JObj [(''a'', JObj [(''hasOwnProperty'', example_method_leaf)])]) \<and>
   processedDataToRaw (JObj [(''a'', JObj [(''hasOwnProperty'', example_method_leaf)])])
     = Inl (Throw TypeError)"
  by code_simp

section \<open>untranslatedKeysGenerator\<close>

lemma spec_untranslated_simps:
  "spec_untranslated ch [] = []"
  "spec_untranslated ch (xs @ ys) = spec_untranslated ch xs @ spec_untranslated ch ys"
  "spec_untranslated ch ((p, c) # ls) =
     (if translated_of c = JNull then [\<lparr>key = c, chain = ch @ p\<rparr>] else []) @ spec_untranslated ch ls"
  "spec_untranslated ch (map (\<lambda>(p, x). (k # p, x)) ls) = spec_untranslated (ch @ [k]) ls"
  unfolding spec_untranslated_def by (simp_all add: filter_map comp_def case_prod_unfold)

lemma untranslatedKeysGenerator_induct:
  "is_processed t \<Longrightarrow>
     untranslatedKeysGenerator t ch = (spec_untranslated ch (processed_leaves t), None)"
  "processed_entries kvs \<Longrightarrow>
     untranslatedKeysLoop kvs ch = (spec_untranslated ch (processed_leaves_in kvs), None)"
proof (induction t ch and kvs ch rule: untranslatedKeysGenerator_untranslatedKeysLoop.induct)
  case (5 k child rest ch)
  then have node: "is_leaf_pair child \<or> is_processed child" and rest: "processed_entries rest"
    by auto
  show ?case
  proof (cases "is_leaf_pair child")
    case True
    then have own: "has_own child ''_translated'' = Inr True"
      and get: "get_prop child ''_translated'' = Inr (translated_of child)"
      by (simp_all add: leaf_pair_has_own leaf_pair_get)
    from "5.IH"(1) [OF own _ get rest]
    show ?thesis
      by (simp add: own get is_leaf_def spec_untranslated_simps)
  next
    case False
    with node have p: "is_processed child" by simp
    then have own: "has_own child ''_translated'' = Inr False" by (rule processed_not_leaf)
    from "5.IH"(2) [OF own _ p] have r: "untranslatedKeysGenerator child (ch @ [k]) =
        (spec_untranslated (ch @ [k]) (processed_leaves child), None)"
      by simp
    from "5.IH"(3) [OF own _ r [symmetric] refl rest]
    show ?thesis
      by (simp add: own r is_leaf_def spec_untranslated_simps)
  qed
qed (auto simp: spec_untranslated_simps)

text \<open>
  C9, as amended. Run on a processed tree with plain keys, the generator ends without an
  exception and yields exactly the leaves whose translated value is absent
  (\<^verbatim>\<open>null\<close>), each with the list of keys from the root to the leaf, in the
  depth-first order of the tree. The sequence is a function of the tree, so an unchanged
  tree is enumerated in the same order again.
\<close>

theorem untranslatedKeysGenerator_enumerates:
  "is_processed t \<Longrightarrow>
     untranslatedKeysGenerator t [] =
       (map (\<lambda>(p, c). \<lparr>key = c, chain = p\<rparr>)
          (filter (\<lambda>(p, c). translated_of c = JNull) (processed_leaves t)), None)"
  using untranslatedKeysGenerator_induct(1) [of t "[]"] by (simp add: spec_untranslated_def)

theorem untranslatedKeysGenerator_enumerates_witness:
  "is_processed (JObj [(''en'', JObj [(''a'', leaf (JStr ''Hi'') (JStr ''Salut'')),
                                      (''c'', leaf (JStr ''New'') JNull)]),
                       (''d'', leaf (JStr ''Yes'') JNull)]) \<and>
   untranslatedKeysGenerator (JObj [(''en'', JObj [(''a'', leaf (JStr ''Hi'') (JStr ''Salut'')),
                                      (''c'', leaf (JStr ''New'') JNull)]),
                       (''d'', leaf (JStr ''Yes'') JNull)]) []
     = ([\<lparr>key = leaf (JStr ''New'') JNull, chain = [''en'', ''c'']\<rparr>,
         \<lparr>key = leaf (JStr ''Yes'') JNull, chain = [''d'']\<rparr>], None)"
  using untranslatedKeysGenerator_enumerates [of "JObj [(''en'', JObj [(''a'', leaf (JStr ''Hi'') (JStr ''Salut'')),
                                      (''c'', leaf (JStr ''New'') JNull)]),
                       (''d'', leaf (JStr ''Yes'') JNull)]"]
  by (simp add: leaf_def pair_field_def plain_key_def inherited_def object_prototype_names_def
        is_leaf_def translated_of_def)

text \<open>
  C9 as it is stated fails. In the processed tree below the leaf \<^verbatim>\<open>x\<close> and the leaf
  under \<^verbatim>\<open>a\<close> have no translation. The generator yields the first and then throws:
  the mapping \<^verbatim>\<open>a\<close> has a key \<^verbatim>\<open>hasOwnProperty\<close>, and line 206 calls the leaf
  under that key for a function.
\<close>

theorem untranslatedKeysGenerator_method_key_counterexample:
  "processed_node (JObj [(''x'', leaf (JStr ''Ex'') JNull),
                         (''a'', JObj [(''hasOwnProperty'', leaf (JStr ''Has'') JNull)])]) \<and>
   untranslatedKeysGenerator (JObj [(''x'', leaf (JStr ''Ex'') JNull),
                         (''a'', JObj [(''hasOwnProperty'', leaf (JStr ''Has'') JNull)])]) []
     = ([\<lparr>key = leaf (JStr ''Ex'') JNull, chain = [''x'']\<rparr>], Some (Throw TypeError))"
  by code_simp
section \<open>buildNewData and the merge\<close>

lemma object_tree_in_map_of: "object_tree_in kvs \<Longrightarrow> map_of kvs k = Some c \<Longrightarrow> \<not> pair_field k \<Longrightarrow> object_tree c"
  by (induction kvs) (auto split: if_splits)

lemma object_tree_child_data: "object_tree d \<Longrightarrow> \<not> pair_field k \<Longrightarrow> object_tree (child_data d k)"
  by (cases d) (auto simp: child_data_def js_or_def dest: object_tree_in_map_of split: option.splits)

lemma object_tree_in_method: "object_tree_in kvs \<Longrightarrow> ''hasOwnProperty'' \<notin> set (map fst kvs)"
  by (induction kvs) force+

lemma object_tree_has_own: "object_tree d \<Longrightarrow> has_own d k = Inr (has_key d k)"
  using object_tree_in_method by (cases d) auto

lemma object_tree_get_prop: "object_tree d \<Longrightarrow> \<not> inherited k \<Longrightarrow> get_prop d k = Inr (field k d)"
  by (cases d) (auto split: option.splits)

lemma object_tree_field: "object_tree d \<Longrightarrow> has_key d k \<Longrightarrow> \<not> pair_field k \<Longrightarrow> object_tree (field k d)"
  by (cases d) (auto dest: object_tree_in_map_of split: option.splits simp: map_of_eq_None_iff)

lemma translated_not_inherited: "\<not> inherited ''_translated''"
  by (simp add: inherited_def object_prototype_names_def)

lemma buildLeaf_eq:
  assumes "object_tree d" "plain_key k" "is_string v"
  shows "buildLeaf d k v n = Inr (merge_translation d k v, n + leaf_count d k v)"
proof (cases "has_key d k")
  case True
  from assms(2) have k: "\<not> pair_field k" "\<not> inherited k" by (simp_all add: plain_keyD)
  from True assms(1) k(1) have "object_tree (field k d)" by (simp add: object_tree_field)
  then have "get_prop (field k d) ''_translated'' = Inr (field ''_translated'' (field k d))"
    using translated_not_inherited by (rule object_tree_get_prop)
  with True assms k show ?thesis
    by (simp add: buildLeaf_def merge_translation_def leaf_count_def object_tree_has_own
          object_tree_get_prop)
next
  case False
  with assms show ?thesis
    by (simp add: buildLeaf_def merge_translation_def leaf_count_def object_tree_has_own)
qed

lemma raw_value_cases:
  assumes "is_string v \<or> is_raw v"
  obtains (str) s where "v = JStr s" | (obj) kvs where "v = JObj kvs" "distinct (map fst kvs)" "raw_entries kvs"
  using assms by (cases v) auto

lemma buildNewData_induct:
  "object_tree d \<Longrightarrow> is_raw l \<Longrightarrow> set (map fst acc) \<inter> set (map fst (own_entries l)) = {} \<Longrightarrow>
     buildNewDataRecursive acc d l n =
       Inr (acc @ merge_entries d (own_entries l), n + merge_count d (own_entries l))"
  "object_tree d \<Longrightarrow> raw_entries es \<Longrightarrow> distinct (map fst es) \<Longrightarrow>
     set (map fst acc) \<inter> set (map fst es) = {} \<Longrightarrow>
     buildNewDataLoop acc d es n = Inr (acc @ merge_entries d es, n + merge_count d es)"
proof (induction acc d l n and acc d es n rule: buildNewDataRecursive_buildNewDataLoop.induct)
  case (1 nd data latestData n)
  from "1.prems"(2) obtain kvs where l: "latestData = JObj kvs" by (cases latestData) auto
  with "1.prems" "1.IH" show ?case by simp
next
  case (2 nd data n)
  show ?case by simp
next
  case (3 nd data k v rest n)
  from "3.prems" have k: "plain_key k" and v: "is_string v \<or> is_raw v"
    and rest: "raw_entries rest" and d: "distinct (map fst rest)"
    and fresh: "k \<notin> set (map fst nd)"
    and knew: "k \<notin> set (map fst rest)"
    and disj: "set (map fst nd) \<inter> set (map fst rest) = {}"
    by auto
  note ot = \<open>object_tree data\<close>
  from k have kp: "\<not> pair_field k" and ki: "\<not> inherited k" by (simp_all add: plain_keyD)
  have sp: "set_prop nd k x = Inr (nd @ [(k, x)])" for x
    using fresh k by (simp add: set_prop_fresh plain_keyD)
  have as: "assign (nd @ [(k, u)]) k x = nd @ [(k, x)]" for u x
    using fresh by (rule assign_last)
  from v show ?case
  proof (cases rule: raw_value_cases)
    case (str s)
    then have nobj: "\<not> typeof_object v" and isstr: "is_string v" by simp_all
    have lf: "buildLeaf data k v n = Inr (merge_translation data k v, n + leaf_count data k v)"
      using ot k isstr by (rule buildLeaf_eq)
    have "buildNewDataLoop (assign (nd @ [(k, leaf v JNull)]) k (leaf v (merge_translation data k v)))
            data rest (n + leaf_count data k v) =
          Inr (assign (nd @ [(k, leaf v JNull)]) k (leaf v (merge_translation data k v))
                 @ merge_entries data rest,
               n + leaf_count data k v + merge_count data rest)"
      by (rule "3.IH"(3) [OF nobj sp lf refl ot rest d]) (use knew disj in \<open>simp add: as\<close>)
    moreover have "merge_value data k v = leaf v (merge_translation data k v)"
      and "merge_value_count data k v = leaf_count data k v"
      using str by (simp_all add: merge_leaf_def)
    ultimately show ?thesis using nobj by (simp add: lf sp as)
  next
    case (obj kvs)
    then have isobj: "typeof_object v" and raw: "is_raw v" by simp_all
    have g: "get_prop data k = Inr (field k data)" using ot ki by (rule object_tree_get_prop)
    have sc: "object_tree (js_or (field k data) (JObj []))"
      using object_tree_child_data [OF ot kp] by (simp add: child_data_def)
    have sub: "buildNewDataRecursive [] (js_or (field k data) (JObj [])) v n =
        Inr (merge_entries (child_data data k) kvs, n + merge_count (child_data data k) kvs)"
      using "3.IH"(1) [OF isobj sp g sc raw] obj by (simp add: child_data_def)
    have "buildNewDataLoop (assign (nd @ [(k, JObj [])]) k (JObj (merge_entries (child_data data k) kvs)))
            data rest (n + merge_count (child_data data k) kvs) =
          Inr (assign (nd @ [(k, JObj [])]) k (JObj (merge_entries (child_data data k) kvs))
                 @ merge_entries data rest,
               n + merge_count (child_data data k) kvs + merge_count data rest)"
      by (rule "3.IH"(2) [OF isobj sp g sub refl ot rest d]) (use knew disj in \<open>simp add: as\<close>)
    moreover have "merge_value data k v = JObj (merge_entries (child_data data k) kvs)"
      and "merge_value_count data k v = merge_count (child_data data k) kvs"
      using obj by simp_all
    ultimately show ?thesis using isobj
      by (simp add: g sub sp as del: buildNewDataRecursive.simps)
  qed
qed

text \<open>Paths in the fresh, the existing and the merged tree.\<close>

lemma map_of_merge_entries:
  "map_of (merge_entries d es) k = map_option (merge_value d k) (map_of es k)"
  by (induction es) auto

lemma keys_merge_entries: "map fst (merge_entries d es) = map fst es"
  by (induction es) auto

lemma node_at_empty: "p \<noteq> [] \<Longrightarrow> node_at (JObj []) p = None"
  by (cases p) auto

lemma node_at_non_object: "p \<noteq> [] \<Longrightarrow> \<not> truthy v \<Longrightarrow> node_at v p = None"
  by (cases p; cases v) auto

lemma node_at_child: "p \<noteq> [] \<Longrightarrow> node_at d (k # p) = node_at (child_data d k) p"
proof (cases d)
  case (JObj kvs)
  assume p: "p \<noteq> []"
  show ?thesis
  proof (cases "map_of kvs k")
    case None
    with JObj p show ?thesis by (simp add: child_data_def js_or_def node_at_empty)
  next
    case (Some c)
    with JObj p show ?thesis
      by (simp add: child_data_def js_or_def node_at_empty node_at_non_object)
  qed
qed (simp_all add: child_data_def js_or_def node_at_empty)

lemma node_at_key: "node_at d [k] = (if has_key d k then Some (field k d) else None)"
  by (cases d) (auto split: option.splits simp: map_of_eq_None_iff [symmetric])

lemma raw_entries_map_of:
  "raw_entries es \<Longrightarrow> map_of es k = Some v \<Longrightarrow> plain_key k \<and> (is_string v \<or> is_raw v)"
  by (induction es) (auto split: if_splits)

text \<open>The merged leaf at the path of a fresh leaf.\<close>

lemma merge_leaf_at:
  "node_at (JObj es) p = Some (JStr s) \<Longrightarrow>
   node_at (JObj (merge_entries d es)) p =
     Some (leaf (JStr s) (if s = [] then JStr []
                          else case node_at d p of None \<Rightarrow> JNull
                               | Some e \<Rightarrow> field ''_translated'' e))"
proof (induction p arbitrary: d es)
  case Nil
  then show ?case by simp
next
  case (Cons k q)
  from Cons.prems obtain v where v: "map_of es k = Some v" and at: "node_at v q = Some (JStr s)"
    by (auto split: option.splits)
  show ?case
  proof (cases q)
    case Nil
    with at have "v = JStr s" by simp
    with v have "node_at (JObj (merge_entries d es)) [k] = Some (merge_leaf d k (JStr s))"
      by (simp add: map_of_merge_entries)
    with Nil show ?thesis
      by (simp only: node_at_key [of d k] merge_leaf_def merge_translation_def) (simp split: if_splits)
  next
    case (Cons k' q')
    with at obtain kvs where kvs: "v = JObj kvs" by (cases v) auto
    from Cons have ne: "q \<noteq> []" by simp
    from Cons.IH [of kvs "child_data d k"] at kvs
    have "node_at (JObj (merge_entries (child_data d k) kvs)) q =
       Some (leaf (JStr s) (if s = [] then JStr []
                          else case node_at (child_data d k) q of None \<Rightarrow> JNull
                               | Some e \<Rightarrow> field ''_translated'' e))"
      by simp
    with v kvs show ?thesis
      by (simp add: map_of_merge_entries node_at_child [OF ne, of d k])
  qed
qed

text \<open>The merged mapping at the path of a fresh mapping.\<close>

lemma merge_branch_at:
  "node_at (JObj es) p = Some (JObj kvs) \<Longrightarrow>
   node_at (JObj (merge_entries d es)) p = Some (JObj (merge_entries (data_at d p) kvs))"
proof (induction p arbitrary: d es)
  case Nil
  then show ?case by simp
next
  case (Cons k q)
  from Cons.prems obtain v where v: "map_of es k = Some v" and at: "node_at v q = Some (JObj kvs)"
    by (auto split: option.splits)
  show ?case
  proof (cases q)
    case Nil
    with at v show ?thesis by (simp add: map_of_merge_entries)
  next
    case (Cons k' q')
    with at obtain kvs' where kvs': "v = JObj kvs'" by (cases v) auto
    from Cons.IH [of kvs' "child_data d k"] at kvs' v show ?thesis
      by (simp add: map_of_merge_entries)
  qed
qed

lemma leaf_pair_object_tree: "is_leaf_pair c \<Longrightarrow> object_tree c"
proof (cases c)
  case (JObj kvs)
  assume "is_leaf_pair c"
  with JObj have keys: "set (map fst kvs) \<subseteq> {''_original'', ''_translated''}" by simp
  have "set (map fst xs) \<subseteq> {''_original'', ''_translated''} \<Longrightarrow> object_tree_in xs" for xs
    by (induction xs) (auto simp: pair_field_def)
  with keys JObj show ?thesis by simp
qed auto

lemma processed_object_tree:
  "is_processed t \<Longrightarrow> object_tree t"
  "processed_entries kvs \<Longrightarrow> object_tree_in kvs"
  by (induction t and kvs rule: is_processed_processed_entries.induct)
     (auto simp: leaf_pair_object_tree dest: plain_keyD(3))

lemma data_at_empty: "data_at (JObj []) p = JObj []"
  by (induction p) (auto simp: child_data_def js_or_def)

lemma leaf_pair_no_key: "is_leaf_pair e \<Longrightarrow> \<not> pair_field k \<Longrightarrow> \<not> has_key e k"
  by (cases e) (auto simp: pair_field_def)

lemma no_key_field: "\<not> has_key e k \<Longrightarrow> field k e = JUndefined"
  by (cases e) (auto simp: map_of_eq_None_iff [symmetric])

lemma leaf_pair_child_data:
  assumes "is_leaf_pair e" "\<not> pair_field k"
  shows "child_data e k = JObj []"
proof -
  from assms have "\<not> has_key e k" by (rule leaf_pair_no_key)
  then have "field k e = JUndefined" by (rule no_key_field)
  then show ?thesis by (simp add: child_data_def js_or_def)
qed

lemma processed_entries_map_of:
  "processed_entries es \<Longrightarrow> map_of es k = Some c \<Longrightarrow> is_leaf_pair c \<or> is_processed c"
  by (induction es) (auto split: if_splits)

lemma node_truthy: "is_leaf_pair c \<or> is_processed c \<Longrightarrow> truthy c"
  by (cases c) auto

lemma data_at_node:
  "is_node d \<Longrightarrow> \<forall>k \<in> set p. \<not> pair_field k \<Longrightarrow>
     (case node_at d p of None \<Rightarrow> data_at d p = JObj []
      | Some e \<Rightarrow> data_at d p = e \<and> is_node e)"
proof (induction p arbitrary: d)
  case Nil
  then show ?case by simp
next
  case (Cons k q)
  then have k: "\<not> pair_field k" and q: "\<forall>k \<in> set q. \<not> pair_field k" by simp_all
  from Cons.prems(1) obtain kvs where d: "d = JObj kvs"
    by (cases d) (auto simp: is_node_def)
  show ?case
  proof (cases "is_leaf_pair d")
    case True
    with k have "\<not> has_key d k" and "child_data d k = JObj []"
      by (simp_all add: leaf_pair_no_key leaf_pair_child_data)
    with d show ?thesis
      by (simp add: data_at_empty map_of_eq_None_iff [symmetric] del: is_leaf_pair.simps)
  next
    case False
    with Cons.prems(1) have "is_processed d" by (simp only: is_node_def) simp
    with d have pe: "processed_entries kvs" by simp
    show ?thesis
    proof (cases "map_of kvs k")
      case None
      with d show ?thesis by (simp add: child_data_def js_or_def data_at_empty)
    next
      case (Some c)
      with pe have node: "is_leaf_pair c \<or> is_processed c" by (rule processed_entries_map_of)
      then have "child_data d k = c" using d Some
        by (simp add: child_data_def js_or_def node_truthy)
      then have da: "data_at d (k # q) = data_at c q" by simp
      have na: "node_at d (k # q) = node_at c q" using d Some by simp
      from node have "is_node c" by (simp only: is_node_def)
      from Cons.IH [OF this q] show ?thesis by (simp only: da na)
    qed
  qed
qed

lemma merge_value_leaf_pair:
  assumes "is_leaf_pair e" "\<not> pair_field k"
  shows "merge_value e k v = merge_value (JObj []) k v"
    and "merge_value_count e k v = merge_value_count (JObj []) k v"
proof -
  from assms have nk: "\<not> has_key e k" and cd: "child_data e k = JObj []"
    by (simp_all only: leaf_pair_no_key leaf_pair_child_data not_False_eq_True)
  have cd0: "child_data (JObj []) k = JObj []" by (simp add: child_data_def js_or_def)
  show "merge_value e k v = merge_value (JObj []) k v"
    by (cases v) (simp_all add: nk cd cd0 merge_leaf_def merge_translation_def)
  show "merge_value_count e k v = merge_value_count (JObj []) k v"
    by (cases v) (simp_all add: nk cd cd0 leaf_count_def)
qed

lemma raw_entries_keys: "raw_entries es \<Longrightarrow> k \<in> set (map fst es) \<Longrightarrow> plain_key k"
  by (induction es) (auto simp: rev_image_eqI)

lemma merge_entries_leaf_pair:
  assumes "is_leaf_pair e"
  shows "raw_entries es \<Longrightarrow> merge_entries e es = merge_entries (JObj []) es"
    and "raw_entries es \<Longrightarrow> merge_count e es = merge_count (JObj []) es"
proof (induction es)
  case (Cons kv es)
  {
    case 1
    then show ?case using Cons.IH(1) merge_value_leaf_pair(1) [OF assms]
      by (cases kv) (simp add: plain_keyD(1))
  next
    case 2
    then show ?case using Cons.IH(2) merge_value_leaf_pair(2) [OF assms]
      by (cases kv) (simp add: plain_keyD(1))
  }
qed simp_all

lemma raw_path:
  "is_raw t \<Longrightarrow> node_at t p = Some x \<Longrightarrow> (\<forall>k \<in> set p. plain_key k) \<and> (is_string x \<or> is_raw x)"
proof (induction p arbitrary: t)
  case Nil
  then show ?case by simp
next
  case (Cons k q)
  from Cons.prems(1) obtain es where t: "t = JObj es" and es: "raw_entries es"
    by (cases t) auto
  from Cons.prems(2) t obtain v where v: "map_of es k = Some v" and at: "node_at v q = Some x"
    by (auto split: option.splits)
  from raw_entries_map_of [OF es v] have k: "plain_key k" and rv: "is_string v \<or> is_raw v"
    by simp_all
  show ?case
  proof (cases q)
    case Nil
    with at k rv show ?thesis by simp
  next
    case (Cons k' q')
    with at rv have "is_raw v" by (cases v) auto
    from Cons.IH [OF this at] k show ?thesis by simp
  qed
qed

lemma buildNewData_eq:
  assumes "object_tree existing" "distinct (map fst es)" "raw_entries es"
  shows "buildNewData existing (JObj es) =
           Inr \<lparr>newData = JObj (merge_entries existing es),
                newUntranslatedKeysCount = merge_count existing es\<rparr>"
proof -
  from assms(1) have "js_or existing (JObj []) = existing"
    by (cases existing) (simp_all add: js_or_def)
  moreover have "buildNewDataLoop [] existing es 0 =
      Inr ([] @ merge_entries existing es, 0 + merge_count existing es)"
    using assms by (intro buildNewData_induct(2)) simp_all
  ultimately show ?thesis by (simp add: buildNewData_def)
qed

lemma is_raw_cases:
  assumes "is_raw fresh"
  obtains es where "fresh = JObj es" "distinct (map fst es)" "raw_entries es"
  using assms by (cases fresh) auto

text \<open>The leaves of the merged tree are the leaves of the fresh tree.\<close>

lemma is_leaf_merge_leaf: "is_leaf (merge_leaf d k v)"
  by (simp add: is_leaf_def merge_leaf_def leaf_def)

lemma original_merge_leaf: "original_of (merge_leaf d k v) = v"
  by (simp add: original_of_def merge_leaf_def leaf_def)

lemma not_leaf_merge_entries: "raw_entries kvs \<Longrightarrow> \<not> is_leaf (JObj (merge_entries d kvs))"
  using raw_entries_keys [of kvs "''_translated''"]
  by (auto simp: is_leaf_def keys_merge_entries plain_key_def pair_field_def simp flip: set_map)

lemma map_prefix_comm:
  "map (\<lambda>(p, c). (p, f c)) (map (\<lambda>(p, x). (k # p, x)) ls) =
   map (\<lambda>(p, x). (k # p, x)) (map (\<lambda>(p, c). (p, f c)) ls)"
  by (induction ls) auto

lemma merged_leaves:
  "is_raw v \<Longrightarrow>
   map (\<lambda>(p, c). (p, original_of c)) (processed_leaves (merge_value d k v)) = raw_leaves v"
  "raw_entries es \<Longrightarrow>
   map (\<lambda>(p, c). (p, original_of c)) (processed_leaves_in (merge_entries d es)) = raw_leaves_in es"
proof (induction d k v and d es rule: merge_value_merge_entries.induct)
  case (1 d k kvs)
  then show ?case by simp
next
  case (5 d k v rest)
  then have v: "is_string v \<or> is_raw v" and rest: "raw_entries rest" by simp_all
  from v show ?case
  proof (cases rule: raw_value_cases)
    case (str s)
    with "5.IH"(2) [OF rest] show ?thesis
      by (simp add: is_leaf_merge_leaf original_merge_leaf)
  next
    case (obj kvs)
    then have "is_raw v" by simp
    from "5.IH"(1) [OF this] obj
    have ih1: "map (\<lambda>(p, c). (p, original_of c))
                 (processed_leaves_in (merge_entries (child_data d k) kvs)) = raw_leaves_in kvs"
      by simp
    have lhs: "processed_leaves_in (merge_entries d ((k, v) # rest)) =
        map (\<lambda>(p, x). (k # p, x)) (processed_leaves_in (merge_entries (child_data d k) kvs))
        @ processed_leaves_in (merge_entries d rest)"
      using obj by (simp add: not_leaf_merge_entries)
    have rhs: "raw_leaves_in ((k, v) # rest) =
        map (\<lambda>(p, x). (k # p, x)) (raw_leaves_in kvs) @ raw_leaves_in rest"
      using obj by simp
    show ?thesis
      by (simp only: lhs rhs map_append map_prefix_comm ih1 "5.IH"(2) [OF rest])
  qed
qed simp_all

text \<open>The counter counts the new leaves.\<close>

lemma raw_leaves_in_nonempty: "(p, v) \<in> set (raw_leaves_in es) \<Longrightarrow> p \<noteq> []"
  by (induction es) (auto split: if_splits)

lemma new_leaf_prefix:
  "length (filter (new_leaf d) (map (\<lambda>(p, x). (k # p, x)) (raw_leaves_in kvs))) =
   length (filter (new_leaf (child_data d k)) (raw_leaves_in kvs))"
proof -
  have "filter (new_leaf d) (map (\<lambda>(p, x). (k # p, x)) (raw_leaves_in kvs)) =
        map (\<lambda>(p, x). (k # p, x)) (filter (new_leaf d \<circ> (\<lambda>(p, x). (k # p, x))) (raw_leaves_in kvs))"
    by (simp only: filter_map)
  moreover have "filter (new_leaf d \<circ> (\<lambda>(p, x). (k # p, x))) (raw_leaves_in kvs) =
        filter (new_leaf (child_data d k)) (raw_leaves_in kvs)"
  proof (rule filter_cong [OF refl])
    fix x assume x: "x \<in> set (raw_leaves_in kvs)"
    obtain p v where pv: "x = (p, v)" by (cases x)
    with x have "p \<noteq> []" by (simp add: raw_leaves_in_nonempty)
    from node_at_child [OF this, of d k] pv
    show "(new_leaf d \<circ> (\<lambda>(p, x). (k # p, x))) x = new_leaf (child_data d k) x"
      by (simp add: new_leaf_def)
  qed
  ultimately show ?thesis by (simp only: length_map)
qed

lemma new_leaf_key: "new_leaf d ([k], v) = (v \<noteq> JStr [] \<and> \<not> has_key d k)"
  by (simp add: new_leaf_def node_at_key del: node_at.simps)

lemma merge_count_leaves:
  "is_raw v \<Longrightarrow> merge_value_count d k v = length (filter (new_leaf (child_data d k)) (raw_leaves v))"
  "raw_entries es \<Longrightarrow> merge_count d es = length (filter (new_leaf d) (raw_leaves_in es))"
proof (induction d k v and d es rule: merge_value_count_merge_count.induct)
  case (1 d k kvs)
  then show ?case by simp
next
  case (5 d k v rest)
  then have v: "is_string v \<or> is_raw v" and rest: "raw_entries rest" by simp_all
  from v show ?case
  proof (cases rule: raw_value_cases)
    case (str s)
    with "5.IH"(2) [OF rest] show ?thesis
      by (simp add: new_leaf_key leaf_count_def)
  next
    case (obj kvs)
    then have "is_raw v" by simp
    from "5.IH"(1) [OF this] obj
    have ih1: "merge_count (child_data d k) kvs =
        length (filter (new_leaf (child_data d k)) (raw_leaves_in kvs))"
      by simp
    have rhs: "raw_leaves_in ((k, v) # rest) =
        map (\<lambda>(p, x). (k # p, x)) (raw_leaves_in kvs) @ raw_leaves_in rest"
      using obj by simp
    have lhs: "merge_count d ((k, v) # rest) = merge_count (child_data d k) kvs + merge_count d rest"
      using obj by simp
    show ?thesis
      by (simp only: lhs rhs filter_append length_append new_leaf_prefix ih1 "5.IH"(2) [OF rest])
  qed
qed simp_all

text \<open>A merged tree is a tree of objects.\<close>

lemma merged_object_tree:
  "is_string v \<or> is_raw v \<Longrightarrow> object_tree (merge_value d k v)"
  "raw_entries es \<Longrightarrow> object_tree_in (merge_entries d es)"
proof (induction d k v and d es rule: merge_value_merge_entries.induct)
  case (5 d k v rest)
  then show ?case by (simp add: plain_keyD(3))
qed (simp_all add: merge_leaf_def leaf_def pair_field_def)

text \<open>Merging a merged tree with the same fresh tree again.\<close>

lemma map_of_has_key: "map_of M k = Some x \<Longrightarrow> has_key (JObj M) k"
  using map_of_eq_None_iff [of M k] by auto

lemma merge_leaf_idem:
  assumes "map_of M k = Some (merge_leaf d k (JStr s))"
  shows "merge_leaf (JObj M) k (JStr s) = merge_leaf d k (JStr s)"
proof -
  from assms have hk: "has_key (JObj M) k" by (rule map_of_has_key)
  from assms have f: "field k (JObj M) = merge_leaf d k (JStr s)" by simp
  have "merge_translation (JObj M) k (JStr s) =
      (if JStr s = JStr [] then JStr []
       else if has_key (JObj M) k then field ''_translated'' (field k (JObj M))
       else JNull)"
    by (rule merge_translation_def)
  also have "\<dots> = (if JStr s = JStr [] then JStr []
                     else field ''_translated'' (merge_leaf d k (JStr s)))"
    by (simp only: hk f if_True)
  also have "\<dots> = merge_translation d k (JStr s)"
    by (simp add: merge_leaf_def merge_translation_def leaf_def)
  finally show ?thesis by (simp add: merge_leaf_def)
qed

lemma merge_idem:
  "is_string v \<or> is_raw v \<Longrightarrow> map_of M k = Some (merge_value d k v) \<Longrightarrow>
     merge_value (JObj M) k v = merge_value d k v"
  "raw_entries es \<Longrightarrow> \<forall>(k, v) \<in> set es. map_of M k = Some (merge_value d k v) \<Longrightarrow>
     merge_entries (JObj M) es = merge_entries d es"
proof (induction d k v and d es arbitrary: M and M rule: merge_value_merge_entries.induct)
  case (1 d k kvs)
  then have dist: "distinct (map fst kvs)" and raw: "raw_entries kvs" by simp_all
  from "1.prems"(2) have cd: "child_data (JObj M) k = JObj (merge_entries (child_data d k) kvs)"
    by (simp add: child_data_def js_or_def)
  have "\<forall>(k', v') \<in> set kvs.
          map_of (merge_entries (child_data d k) kvs) k' = Some (merge_value (child_data d k) k' v')"
    using dist by (auto simp: map_of_merge_entries)
  from "1.IH" [OF raw this] cd show ?case by simp
next
  case (5 d k v rest)
  then show ?case by simp
qed (simp_all add: merge_leaf_idem)
section \<open>The claims about buildNewData\<close>

lemma example_wf: "is_processed example_existing" "is_raw example_fresh"
  by (simp_all add: example_existing_def example_fresh_def leaf_def pair_field_def plain_key_def
        inherited_def object_prototype_names_def)

lemma example_run:
  "buildNewData example_existing example_fresh =
     Inr \<lparr>newData = example_merged, newUntranslatedKeysCount = 2\<rparr>"
  by code_simp

text \<open>
  Why the keys of the trees are plain. With a fresh key of the name of a property of
  \<^verbatim>\<open>Object.prototype\<close> the merge is no longer a function of the two trees alone:
  line 77 reads the \<^verbatim>\<open>constructor\<close> that the existing mapping inherits, and line 79
  sets the prototype of the new object where it should make the key \<^verbatim>\<open>__proto__\<close>.
\<close>

lemma buildNewData_inherited_key:
  "buildNewData (JObj []) (JObj [(''constructor'', JObj [(''name'', JStr ''x'')])])
     = Inl PrototypeChain"
  "buildNewData (JObj []) (JObj [(''__proto__'', JStr ''x''), (''a'', JStr ''y'')])
     = Inl PrototypeChain"
  by code_simp+

lemma example_meets: "list_all (meets_leaf example_existing) (raw_leaves example_fresh)"
  by (simp add: example_existing_def example_fresh_def leaf_def meets_leaf_def)

lemma buildNewData_wf:
  assumes "is_processed existing" "is_raw fresh"
  obtains es where "fresh = JObj es" "distinct (map fst es)" "raw_entries es"
    "buildNewData existing fresh =
       Inr \<lparr>newData = JObj (merge_entries existing es),
            newUntranslatedKeysCount = merge_count existing es\<rparr>"
proof -
  from assms(2) obtain es where es: "fresh = JObj es" "distinct (map fst es)" "raw_entries es"
    by (rule is_raw_cases)
  from assms(1) have "object_tree existing" by (rule processed_object_tree)
  from buildNewData_eq [OF this es(2,3)] es that show thesis by simp
qed

lemma raw_path_keys:
  assumes "is_raw t" "node_at t p = Some x"
  shows "\<forall>k \<in> set p. \<not> pair_field k"
  using raw_path [OF assms] plain_keyD(1) by blast

text \<open>
  C1, as amended. For every merge of a processed tree with a fresh raw tree, both with
  plain keys, and every path where the fresh tree has a leaf that meets a leaf: the merge
  returns, and the merged leaf at the path has the fresh value for its original; its
  translated value is the empty string if the fresh value is the empty string;
  otherwise it is the translated value of the leaf pair that the existing tree holds at
  the path, and it is absent (\<^verbatim>\<open>null\<close>) if the path is absent from the existing tree.
  In particular a translation \<open>T\<close> that is not \<^verbatim>\<open>null\<close> is carried forward to the
  merged leaf. Nothing is said of a fresh leaf that is not empty at a path where the
  existing tree holds a mapping.
\<close>

theorem buildNewData_carries_translation:
  assumes "is_processed existing" and "is_raw fresh"
    and "node_at fresh p = Some (JStr s)"
    and "meets_leaf existing (p, JStr s)"
  shows "\<exists>r. buildNewData existing fresh = Inr r \<and>
           node_at (newData r) p =
             Some (leaf (JStr s)
                    (if s = [] then JStr []
                     else case node_at existing p of
                            None \<Rightarrow> JNull
                          | Some e \<Rightarrow> translated_of e))"
proof -
  from assms(1,2) obtain es where es: "fresh = JObj es"
    and run: "buildNewData existing fresh =
       Inr \<lparr>newData = JObj (merge_entries existing es),
            newUntranslatedKeysCount = merge_count existing es\<rparr>"
    by (rule buildNewData_wf)
  from assms(3) es have at: "node_at (JObj es) p = Some (JStr s)" by simp
  from merge_leaf_at [OF at, of existing] run show ?thesis
    unfolding translated_of_def by simp
qed

theorem buildNewData_carries_translation_witness:
  "is_processed example_existing \<and> is_raw example_fresh \<and>
   node_at example_fresh [''en'', ''a''] = Some (JStr ''Hi'') \<and>
   meets_leaf example_existing ([''en'', ''a''], JStr ''Hi'') \<and>
   (\<exists>r. buildNewData example_existing example_fresh = Inr r \<and>
        node_at (newData r) [''en'', ''a''] = Some (leaf (JStr ''Hi'') (JStr ''Salut'')))"
proof -
  have at: "node_at example_fresh [''en'', ''a''] = Some (JStr ''Hi'')"
    by (simp add: example_fresh_def)
  have meets: "meets_leaf example_existing ([''en'', ''a''], JStr ''Hi'')"
    by (simp add: example_existing_def leaf_def meets_leaf_def)
  have ex: "(if ''Hi'' = [] then JStr []
             else case node_at example_existing [''en'', ''a''] of None \<Rightarrow> JNull
                  | Some e \<Rightarrow> translated_of e) = JStr ''Salut''"
    by (simp add: example_existing_def leaf_def translated_of_def)
  from buildNewData_carries_translation [OF example_wf at meets] ex example_wf at meets
  show ?thesis by simp
qed

text \<open>
  C1 as it is stated fails. The existing tree holds a leaf pair translated \<^verbatim>\<open>'A'\<close> at
  the path of the fresh leaf, whose value is not empty, and there is no merged leaf: the
  key of the leaf is \<^verbatim>\<open>hasOwnProperty\<close>, and line 85 calls the leaf pair under that
  key for a function.
\<close>

theorem buildNewData_method_key_counterexample:
  "processed_node (JObj [(''hasOwnProperty'', example_method_leaf)]) \<and>
   raw_node (JObj [(''hasOwnProperty'', JStr ''Has'')]) \<and>
   node_at (JObj [(''hasOwnProperty'', JStr ''Has'')]) [''hasOwnProperty''] = Some (JStr ''Has'') \<and>
   node_at (JObj [(''hasOwnProperty'', example_method_leaf)]) [''hasOwnProperty'']
     = Some example_method_leaf \<and>
   is_leaf_pair example_method_leaf \<and>
   translated_of example_method_leaf = JStr ''A'' \<and>
   buildNewData (JObj [(''hasOwnProperty'', example_method_leaf)])
                (JObj [(''hasOwnProperty'', JStr ''Has'')]) = Inl (Throw TypeError)"
  by code_simp

text \<open>
  C2, as amended. For every merge of a processed tree with a fresh raw tree, both with
  plain keys, the merge returns, and at every path where the fresh tree has a mapping the
  merged tree has a mapping with the same keys, in the same order: the keys of the
  existing tree that the fresh tree does not have are dropped. Where the existing tree
  has nothing at the path, or has a leaf pair there and no mapping, the merged mapping is
  the one that the merge of the empty mapping with the fresh mapping gives. An existing
  tree that is \<^verbatim>\<open>undefined\<close> or \<^verbatim>\<open>null\<close> is merged as the empty mapping is.
\<close>

theorem buildNewData_key_sets:
  assumes "is_processed existing" and "is_raw fresh"
  shows "(\<exists>r. buildNewData existing fresh = Inr r \<and>
            (\<forall>p kvs. node_at fresh p = Some (JObj kvs) \<longrightarrow>
               (\<exists>kvs'. node_at (newData r) p = Some (JObj kvs') \<and>
                       map fst kvs' = map fst kvs \<and>
                       ((\<forall>e. node_at existing p = Some e \<longrightarrow> \<not> is_processed e) \<longrightarrow>
                          (\<exists>r0. buildNewData (JObj []) (JObj kvs) = Inr r0 \<and>
                                newData r0 = JObj kvs'))))) \<and>
         buildNewData JUndefined fresh = buildNewData (JObj []) fresh \<and>
         buildNewData JNull fresh = buildNewData (JObj []) fresh"
proof -
  from assms obtain es where es: "fresh = JObj es"
    and run: "buildNewData existing fresh =
       Inr \<lparr>newData = JObj (merge_entries existing es),
            newUntranslatedKeysCount = merge_count existing es\<rparr>"
    by (rule buildNewData_wf)
  from assms(1) have node: "is_node existing" by (simp add: is_node_def)
  have branch: "\<exists>kvs'. node_at (JObj (merge_entries existing es)) p = Some (JObj kvs') \<and>
                       map fst kvs' = map fst kvs \<and>
                       ((\<forall>e. node_at existing p = Some e \<longrightarrow> \<not> is_processed e) \<longrightarrow>
                          (\<exists>r0. buildNewData (JObj []) (JObj kvs) = Inr r0 \<and>
                                newData r0 = JObj kvs'))"
    if at: "node_at fresh p = Some (JObj kvs)" for p kvs
  proof -
    from raw_path_keys [OF assms(2) at] have keys: "\<forall>k \<in> set p. \<not> pair_field k" .
    from raw_path [OF assms(2) at] have raw: "is_raw (JObj kvs)" by simp
    then have dist: "distinct (map fst kvs)" and re: "raw_entries kvs" by simp_all
    from at es have "node_at (JObj es) p = Some (JObj kvs)" by simp
    then have m: "node_at (JObj (merge_entries existing es)) p =
        Some (JObj (merge_entries (data_at existing p) kvs))"
      by (rule merge_branch_at)
    have empty: "merge_entries (data_at existing p) kvs = merge_entries (JObj []) kvs"
      if no: "\<forall>e. node_at existing p = Some e \<longrightarrow> \<not> is_processed e"
    proof (cases "node_at existing p")
      case None
      with data_at_node [OF node keys] show ?thesis by simp
    next
      case (Some e)
      with data_at_node [OF node keys] have d: "data_at existing p = e" and "is_node e"
        by simp_all
      with no Some have "is_leaf_pair e" by (simp add: is_node_def)
      from merge_entries_leaf_pair(1) [OF this re] d show ?thesis by simp
    qed
    have "buildNewData (JObj []) (JObj kvs) =
        Inr \<lparr>newData = JObj (merge_entries (JObj []) kvs),
             newUntranslatedKeysCount = merge_count (JObj []) kvs\<rparr>"
      using dist re by (intro buildNewData_eq) simp_all
    with m empty show ?thesis by (simp add: keys_merge_entries)
  qed
  have "buildNewData JUndefined fresh = buildNewData (JObj []) fresh"
    and "buildNewData JNull fresh = buildNewData (JObj []) fresh"
    by (simp_all add: buildNewData_def js_or_def)
  with run branch show ?thesis by simp
qed

theorem buildNewData_key_sets_witness:
  "is_processed example_existing \<and> is_raw example_fresh \<and>
   (\<exists>r. buildNewData example_existing example_fresh = Inr r \<and>
        node_at (newData r) [''en'', ''menu''] = Some (JObj [(''home'', leaf (JStr ''Home'') JNull)]))"
proof -
  from buildNewData_key_sets [OF example_wf]
  obtain r where "buildNewData example_existing example_fresh = Inr r" by blast
  with example_run example_wf show ?thesis
    by (auto simp: example_merged_def)
qed

text \<open>
  C2 as it is stated fails. The existing branch \<^verbatim>\<open>a\<close> is a leaf pair and not a
  mapping; line 77 passes the pair itself down and not an empty mapping, and for the
  fresh key \<^verbatim>\<open>_translated\<close> line 86 reads a property of the \<^verbatim>\<open>null\<close> that the pair
  holds under that name. The existing branch \<^verbatim>\<open>m\<close> has a key \<^verbatim>\<open>hasOwnProperty\<close>,
  and line 85 calls the leaf pair under that key for a function. Both merges throw.
\<close>

theorem buildNewData_key_sets_counterexample:
  "processed_node (JObj [(''a'', leaf (JStr ''Hi'') JNull)]) \<and>
   raw_node (JObj [(''a'', JObj [(''_translated'', JStr ''x'')])]) \<and>
   buildNewData (JObj [(''a'', leaf (JStr ''Hi'') JNull)])
                (JObj [(''a'', JObj [(''_translated'', JStr ''x'')])]) = Inl (Throw TypeError) \<and>
   processed_node (JObj [(''m'', JObj [(''hasOwnProperty'', example_method_leaf)])]) \<and>
   raw_node (JObj [(''m'', JObj [(''k'', JStr ''v'')])]) \<and>
   buildNewData (JObj [(''m'', JObj [(''hasOwnProperty'', example_method_leaf)])])
                (JObj [(''m'', JObj [(''k'', JStr ''v'')])]) = Inl (Throw TypeError)"
  by code_simp

text \<open>
  C3, as amended. For every merge of a processed tree with a fresh raw tree, both with
  plain keys, in which every fresh leaf meets a leaf, \<^verbatim>\<open>newUntranslatedKeysCount\<close> is
  the number of leaves of the fresh tree whose value is not the empty string and whose
  path is absent from the existing tree. A leaf whose existing counterpart has an absent
  translation is not counted.
\<close>

theorem buildNewData_new_count:
  assumes "is_processed existing" and "is_raw fresh"
    and "list_all (meets_leaf existing) (raw_leaves fresh)"
  shows "\<exists>r. buildNewData existing fresh = Inr r \<and>
           newUntranslatedKeysCount r =
             length (filter (\<lambda>(p, v). v \<noteq> JStr [] \<and> node_at existing p = None)
                       (raw_leaves fresh))"
proof -
  from assms(1,2) obtain es where es: "fresh = JObj es" "raw_entries es"
    and run: "buildNewData existing fresh =
       Inr \<lparr>newData = JObj (merge_entries existing es),
            newUntranslatedKeysCount = merge_count existing es\<rparr>"
    by (rule buildNewData_wf)
  from merge_count_leaves(2) [OF es(2), of existing] es(1) run show ?thesis
    by (simp add: new_leaf_def)
qed

theorem buildNewData_new_count_witness:
  "is_processed example_existing \<and> is_raw example_fresh \<and>
   list_all (meets_leaf example_existing) (raw_leaves example_fresh) \<and>
   (\<exists>r. buildNewData example_existing example_fresh = Inr r \<and> newUntranslatedKeysCount r = 2)"
proof -
  have "length (filter (\<lambda>(p, v). v \<noteq> JStr [] \<and> node_at example_existing p = None)
                       (raw_leaves example_fresh)) = 2"
    by (simp add: example_existing_def example_fresh_def leaf_def)
  with buildNewData_new_count [OF example_wf example_meets] example_wf example_meets
  show ?thesis by simp
qed

text \<open>
  C3 as it is stated fails. The fresh leaf \<^verbatim>\<open>a\<close> has an existing counterpart whose
  translation is absent, so the specification counts it, and the code returns 0. The
  fresh leaf \<^verbatim>\<open>c\<close> is new, so the specification counts it, and the code returns no
  count: the existing mapping \<^verbatim>\<open>b\<close> has a key \<^verbatim>\<open>hasOwnProperty\<close>, and line 85
  calls the leaf pair under that key for a function.
\<close>

theorem buildNewData_new_count_counterexample:
  "is_processed (JObj [(''a'', leaf (JStr ''Hi'') JNull)]) \<and>
   is_raw (JObj [(''a'', JStr ''Hi'')]) \<and>
   length (filter (spec_new_leaf (JObj [(''a'', leaf (JStr ''Hi'') JNull)]))
             (raw_leaves (JObj [(''a'', JStr ''Hi'')]))) = 1 \<and>
   buildNewData (JObj [(''a'', leaf (JStr ''Hi'') JNull)]) (JObj [(''a'', JStr ''Hi'')])
     = Inr \<lparr>newData = JObj [(''a'', leaf (JStr ''Hi'') JNull)], newUntranslatedKeysCount = 0\<rparr> \<and>
   processed_node (JObj [(''b'', JObj [(''hasOwnProperty'', example_method_leaf)])]) \<and>
   raw_node (JObj [(''b'', JObj [(''c'', JStr ''New'')])]) \<and>
   length (filter (spec_new_leaf (JObj [(''b'', JObj [(''hasOwnProperty'', example_method_leaf)])]))
             (raw_leaves (JObj [(''b'', JObj [(''c'', JStr ''New'')])]))) = 1 \<and>
   buildNewData (JObj [(''b'', JObj [(''hasOwnProperty'', example_method_leaf)])])
                (JObj [(''b'', JObj [(''c'', JStr ''New'')])]) = Inl (Throw TypeError)"
  by code_simp

text \<open>
  C5, as amended. For every merge of a processed tree with a fresh raw tree, both with
  plain keys, the merge returns; at every path where the fresh value is the empty string
  the merged leaf has the translated value \<^verbatim>\<open>''\<close>, whatever the existing tree holds
  there, and the counter counts only leaves whose fresh value is not the empty string.
\<close>

theorem buildNewData_empty_string:
  assumes "is_processed existing" and "is_raw fresh"
  shows "\<exists>r. buildNewData existing fresh = Inr r \<and>
           (\<forall>p. node_at fresh p = Some (JStr []) \<longrightarrow>
                  node_at (newData r) p = Some (leaf (JStr []) (JStr []))) \<and>
           newUntranslatedKeysCount r =
             length (filter (\<lambda>(p, v). v \<noteq> JStr [] \<and> node_at existing p = None)
                       (raw_leaves fresh))"
proof -
  from assms obtain es where es: "fresh = JObj es" "raw_entries es"
    and run: "buildNewData existing fresh =
       Inr \<lparr>newData = JObj (merge_entries existing es),
            newUntranslatedKeysCount = merge_count existing es\<rparr>"
    by (rule buildNewData_wf)
  have "node_at (JObj (merge_entries existing es)) p = Some (leaf (JStr []) (JStr []))"
    if "node_at fresh p = Some (JStr [])" for p
    using merge_leaf_at [of es p "[]" existing] that es(1) by simp
  with merge_count_leaves(2) [OF es(2), of existing] es(1) run show ?thesis
    by (simp add: new_leaf_def)
qed

theorem buildNewData_empty_string_witness:
  "is_processed example_existing \<and> is_raw example_fresh \<and>
   node_at example_fresh [''en'', ''b''] = Some (JStr []) \<and>
   (\<exists>r. buildNewData example_existing example_fresh = Inr r \<and>
        node_at (newData r) [''en'', ''b''] = Some (leaf (JStr []) (JStr [])))"
proof -
  have at: "node_at example_fresh [''en'', ''b''] = Some (JStr [])"
    by (simp add: example_fresh_def)
  from buildNewData_empty_string [OF example_wf] at example_wf show ?thesis by blast
qed

text \<open>
  C5 as it is stated fails. The fresh leaf \<^verbatim>\<open>e\<close> under \<^verbatim>\<open>a\<close> is the empty string,
  and there is no merged leaf for it: the existing mapping \<^verbatim>\<open>a\<close> has a key
  \<^verbatim>\<open>hasOwnProperty\<close>, and at the fresh leaf \<^verbatim>\<open>x\<close> line 85 calls the leaf pair under
  that key for a function.
\<close>

theorem buildNewData_empty_string_counterexample:
  "processed_node (JObj [(''a'', JObj [(''hasOwnProperty'', example_method_leaf)])]) \<and>
   raw_node (JObj [(''a'', JObj [(''x'', JStr ''y''), (''e'', JStr [])])]) \<and>
   node_at (JObj [(''a'', JObj [(''x'', JStr ''y''), (''e'', JStr [])])]) [''a'', ''e'']
     = Some (JStr []) \<and>
   buildNewData (JObj [(''a'', JObj [(''hasOwnProperty'', example_method_leaf)])])
                (JObj [(''a'', JObj [(''x'', JStr ''y''), (''e'', JStr [])])])
     = Inl (Throw TypeError)"
  by code_simp

text \<open>
  C7, as amended. For every processed tree and fresh raw tree, both with plain keys,
  merging the merged tree with the same fresh tree again returns, and returns the same
  merged tree.
\<close>

theorem buildNewData_idempotent:
  assumes "is_processed existing" and "is_raw fresh"
  shows "\<exists>r r'. buildNewData existing fresh = Inr r \<and>
              buildNewData (newData r) fresh = Inr r' \<and>
              newData r' = newData r"
proof -
  from assms obtain es where es: "fresh = JObj es" "distinct (map fst es)" "raw_entries es"
    and run: "buildNewData existing fresh =
       Inr \<lparr>newData = JObj (merge_entries existing es),
            newUntranslatedKeysCount = merge_count existing es\<rparr>"
    by (rule buildNewData_wf)
  let ?M = "merge_entries existing es"
  from es(3) have "object_tree (JObj ?M)" by (simp add: merged_object_tree)
  from buildNewData_eq [OF this es(2,3)]
  have again: "buildNewData (JObj ?M) fresh =
      Inr \<lparr>newData = JObj (merge_entries (JObj ?M) es),
           newUntranslatedKeysCount = merge_count (JObj ?M) es\<rparr>"
    using es(1) by simp
  have "\<forall>(k, v) \<in> set es. map_of ?M k = Some (merge_value existing k v)"
    using es(2) by (auto simp: map_of_merge_entries)
  from merge_idem(2) [OF es(3) this] have "merge_entries (JObj ?M) es = ?M" .
  with run again show ?thesis by simp
qed

theorem buildNewData_idempotent_witness:
  "is_processed example_existing \<and> is_raw example_fresh \<and>
   buildNewData example_existing example_fresh =
     Inr \<lparr>newData = example_merged, newUntranslatedKeysCount = 2\<rparr> \<and>
   (\<exists>r'. buildNewData example_merged example_fresh = Inr r' \<and> newData r' = example_merged)"
proof -
  from buildNewData_idempotent [OF example_wf] example_run example_wf
  show ?thesis by auto
qed

text \<open>
  C7 as it is stated fails. The first merge returns a tree in which the mapping \<^verbatim>\<open>a\<close>
  has a leaf under the key \<^verbatim>\<open>hasOwnProperty\<close>; the merge of that tree with the same
  fresh tree throws, for line 85 calls the leaf for a function.
\<close>

theorem buildNewData_idempotent_counterexample:
  "processed_node (JObj []) \<and>
   raw_node (JObj [(''a'', JObj [(''hasOwnProperty'', JStr ''Has'')])]) \<and>
   buildNewData (JObj []) (JObj [(''a'', JObj [(''hasOwnProperty'', JStr ''Has'')])])
     = Inr \<lparr>newData = JObj [(''a'', JObj [(''hasOwnProperty'', leaf (JStr ''Has'') JNull)])],
            newUntranslatedKeysCount = 1\<rparr> \<and>
   buildNewData (JObj [(''a'', JObj [(''hasOwnProperty'', leaf (JStr ''Has'') JNull)])])
                (JObj [(''a'', JObj [(''hasOwnProperty'', JStr ''Has'')])])
     = Inl (Throw TypeError)"
  by code_simp

text \<open>
  C10, as amended. For every merge of a processed tree with a fresh raw tree, both with
  plain keys, the merge returns, and the leaves of the merged tree, each with its path
  and its \<^verbatim>\<open>_original\<close>, are the leaves of the fresh tree, each with its path and its
  value, in the same order: the original always comes from the fresh tree.
\<close>

theorem buildNewData_original_from_fresh:
  assumes "is_processed existing" and "is_raw fresh"
  shows "\<exists>r. buildNewData existing fresh = Inr r \<and>
           map (\<lambda>(p, c). (p, original_of c)) (processed_leaves (newData r)) = raw_leaves fresh"
proof -
  from assms obtain es where es: "fresh = JObj es" "raw_entries es"
    and run: "buildNewData existing fresh =
       Inr \<lparr>newData = JObj (merge_entries existing es),
            newUntranslatedKeysCount = merge_count existing es\<rparr>"
    by (rule buildNewData_wf)
  from merged_leaves(2) [OF es(2), of existing] es(1) run show ?thesis by simp
qed

theorem buildNewData_original_from_fresh_witness:
  "is_processed example_existing \<and> is_raw example_fresh \<and>
   (\<exists>r. buildNewData example_existing example_fresh = Inr r \<and>
        map (\<lambda>(p, c). (p, original_of c)) (processed_leaves (newData r)) =
          [([''en'', ''a''], JStr ''Hi''), ([''en'', ''b''], JStr []),
           ([''en'', ''c''], JStr ''New''), ([''en'', ''menu'', ''home''], JStr ''Home'')])"
proof -
  have "raw_leaves example_fresh =
          [([''en'', ''a''], JStr ''Hi''), ([''en'', ''b''], JStr []),
           ([''en'', ''c''], JStr ''New''), ([''en'', ''menu'', ''home''], JStr ''Home'')]"
    by (simp add: example_fresh_def)
  with buildNewData_original_from_fresh [OF example_wf] example_wf show ?thesis by simp
qed

text \<open>
  C10 as it is stated fails. The fresh tree has the leaf \<^verbatim>\<open>greeting\<close>, and there is
  no merged leaf to hold its value: the existing tree has a key \<^verbatim>\<open>hasOwnProperty\<close>,
  and line 85 calls the leaf pair under that key for a function.
\<close>

theorem buildNewData_original_counterexample:
  "processed_node (JObj [(''hasOwnProperty'', example_method_leaf)]) \<and>
   raw_node (JObj [(''greeting'', JStr ''Hello'')]) \<and>
   raw_leaves (JObj [(''greeting'', JStr ''Hello'')]) = [([''greeting''], JStr ''Hello'')] \<and>
   buildNewData (JObj [(''hasOwnProperty'', example_method_leaf)])
                (JObj [(''greeting'', JStr ''Hello'')]) = Inl (Throw TypeError)"
  by code_simp
section \<open>unusedTranslatedKeysCount\<close>

lemma unused_skip_leaf:
  "has_own data ''_translated'' = Inr True \<Longrightarrow> unusedTranslatedKeysCountLoop data es l n = Inr n"
  by (induction es) auto

lemma unused_leaf_pair:
  assumes "is_leaf_pair c"
  shows "unusedTranslatedKeysCountRecursive c l n = Inr n"
proof -
  from assms obtain kvs where c: "c = JObj kvs" by (cases c) auto
  from assms have "has_own c ''_translated'' = Inr True" by (rule leaf_pair_has_own)
  with c show ?thesis by (simp add: unused_skip_leaf del: has_own.simps)
qed

lemma unused_leaf_under_key:
  assumes "map_of kvs k = Some l"
  shows "filter (unused_leaf (JObj kvs)) (map (\<lambda>(p, x). (k # p, x)) ls) =
         map (\<lambda>(p, x). (k # p, x)) (filter (unused_leaf l) ls)"
  using assms by (induction ls) (auto simp: unused_leaf_def)

lemma unused_leaf_no_key:
  assumes "\<not> has_key L k" "(p, c) \<in> set (processed_leaves_in [(k, child)])"
  shows "unused_leaf L (p, c) = counted_translated c"
proof -
  from processed_leaves_in_hd [OF assms(2)] obtain q where p: "p = k # q" by auto
  from assms(1) have "node_at L (k # q) = None"
    by (cases L) (auto simp: map_of_eq_None_iff [symmetric])
  with p show ?thesis by (simp add: unused_leaf_def)
qed

lemma unused_bulk:
  assumes "\<not> has_key L k"
  shows "length (filter (unused_leaf L) (processed_leaves_in [(k, child)])) =
         count_translated (processed_leaves_in [(k, child)])"
proof -
  have "filter (unused_leaf L) (processed_leaves_in [(k, child)]) =
        filter (counted_translated \<circ> snd) (processed_leaves_in [(k, child)])"
    by (rule filter_cong [OF refl]) (use unused_leaf_no_key [OF assms] in auto)
  then show ?thesis by (simp add: count_translated_def filter_map)
qed

lemma statistics_single:
  assumes "plain_key k" "is_leaf_pair child \<or> is_processed child"
  shows "statistics (JObj [(k, child)]) =
     Inr \<lparr>overallCount = count_overall (processed_leaves_in [(k, child)]),
          translatedCount = count_translated (processed_leaves_in [(k, child)])\<rparr>"
proof -
  from assms have "is_processed (JObj [(k, child)])" by simp
  from statistics_induct(1) [OF this, of "\<lparr>overallCount = 0, translatedCount = 0\<rparr>"]
  show ?thesis by (simp add: statistics_def del: processed_leaves_in.simps)
qed

lemma object_tree_present:
  assumes "object_tree L" "has_key L k" "\<not> pair_field k"
  obtains kvs l where "L = JObj kvs" "map_of kvs k = Some l" "get_prop L k = Inr l" "object_tree l"
proof -
  from assms(1) obtain kvs where L: "L = JObj kvs" by (cases L) auto
  with assms(2) obtain l where l: "map_of kvs k = Some l"
    using map_of_eq_None_iff [of kvs k] by auto
  with L have g: "get_prop L k = Inr l" by simp
  from assms L l have "object_tree l" by (auto dest: object_tree_in_map_of)
  with L l g that show thesis by blast
qed

lemma unused_induct:
  "is_processed data \<Longrightarrow> object_tree L \<Longrightarrow>
     unusedTranslatedKeysCountRecursive data L n =
       Inr (n + length (filter (unused_leaf L) (processed_leaves data)))"
  "is_processed data \<Longrightarrow> processed_entries es \<Longrightarrow> object_tree L \<Longrightarrow>
     unusedTranslatedKeysCountLoop data es L n =
       Inr (n + length (filter (unused_leaf L) (processed_leaves_in es)))"
proof (induction data L n and data es L n
       rule: unusedTranslatedKeysCountRecursive_unusedTranslatedKeysCountLoop.induct)
  case (1 kvs latestData n)
  then show ?case by simp
next
  case (5 data k child rest L n)
  from "5.prems" have pk: "plain_key k" and node: "is_leaf_pair child \<or> is_processed child"
    and rest: "processed_entries rest" and data: "is_processed data" and L: "object_tree L"
    by simp_all
  from pk have k: "\<not> pair_field k" by (rule plain_keyD(1))
  from data have skip: "has_own data ''_translated'' = Inr False" by (rule processed_not_leaf)
  from L have own: "has_own L k = Inr (has_key L k)" by (rule object_tree_has_own)
  define one where "one = length (filter (unused_leaf L) (processed_leaves_in [(k, child)]))"
  have parts: "length (filter (unused_leaf L) (processed_leaves_in ((k, child) # rest))) =
      one + length (filter (unused_leaf L) (processed_leaves_in rest))"
    by (simp add: one_def)
  show ?case
  proof (cases "has_key L k")
    case False
    with own have own': "has_own L k = Inr False" by simp
    have st: "statistics (JObj [(k, child)]) =
        Inr \<lparr>overallCount = count_overall (processed_leaves_in [(k, child)]), translatedCount = one\<rparr>"
      unfolding one_def unused_bulk [OF False] using pk node by (rule statistics_single)
    from "5.IH"(4) [OF skip _ own' _ st data rest L]
    have "unusedTranslatedKeysCountLoop data rest L (n + one) =
          Inr (n + one + length (filter (unused_leaf L) (processed_leaves_in rest)))"
      by simp
    then show ?thesis
      by (simp add: skip own' st parts del: processed_leaves_in.simps)
  next
    case True
    with own have own': "has_own L k = Inr True" by simp
    from L True k obtain kvs l where Lk: "L = JObj kvs" "map_of kvs k = Some l"
      and g: "get_prop L k = Inr l" and l: "object_tree l"
      by (rule object_tree_present)
    have sub: "unusedTranslatedKeysCountRecursive child l n = Inr (n + one)"
    proof (cases "is_leaf_pair child")
      case True
      then have "is_leaf child" using node by (simp add: node_is_leaf)
      moreover have "\<not> unused_leaf L ([k], child)"
        using Lk by (simp add: unused_leaf_def)
      ultimately show ?thesis using True by (simp add: unused_leaf_pair one_def)
    next
      case False
      with node have p: "is_processed child" by simp
      then have nl: "\<not> is_leaf child" using False by (simp add: node_is_leaf)
      from "5.IH"(2) [OF skip _ own' _ g p l]
      have "unusedTranslatedKeysCountRecursive child l n =
          Inr (n + length (filter (unused_leaf l) (processed_leaves child)))"
        by simp
      with nl Lk show ?thesis
        by (simp add: unused_leaf_under_key [OF Lk(2)] one_def)
    qed
    from "5.IH"(3) [OF skip _ own' _ g sub data rest L]
    have "unusedTranslatedKeysCountLoop data rest L (n + one) =
          Inr (n + one + length (filter (unused_leaf L) (processed_leaves_in rest)))"
      by simp
    then show ?thesis
      by (simp add: skip own' g sub parts del: processed_leaves_in.simps)
  qed
qed simp_all

text \<open>On settled leaves the test of \<^verbatim>\<open>statistics\<close> is the rule of the specification.\<close>

lemma settled_counted: "settled c \<Longrightarrow> counted_translated c = spec_counted_translated c"
  by (auto simp: settled_def counted_translated_def spec_counted_translated_def)

lemma settled_unused:
  assumes "list_all (\<lambda>(p, c). settled c) ls"
  shows "filter (unused_leaf merged) ls = filter (spec_unused_leaf merged) ls"
proof (rule filter_cong [OF refl])
  fix x assume "x \<in> set ls"
  with assms have "settled (snd x)" by (auto simp: list_all_iff)
  then show "unused_leaf merged x = spec_unused_leaf merged x"
    by (cases x) (simp add: unused_leaf_def spec_unused_leaf_def settled_counted)
qed

text \<open>
  C6, as amended. \<^verbatim>\<open>unusedTranslatedKeysCount(existing, merged)\<close> is 0 when the
  existing tree is absent. For a processed tree with plain keys whose leaves are settled,
  and a merged tree of objects, it is the number of leaves of the existing tree that
  the rule of the specification counts as translated (the original is not empty and the
  translation is not absent) and whose path is absent from the merged tree. A subtree
  under a key that the merged tree does not have is counted in bulk: it adds the
  \<^verbatim>\<open>translatedCount\<close> that \<^verbatim>\<open>statistics\<close> gives for it. Nothing is said of the count
  of a leaf that is not settled.
\<close>

theorem unusedTranslatedKeysCount_counts:
  "unusedTranslatedKeysCount JUndefined merged = Inr 0 \<and>
   unusedTranslatedKeysCount JNull merged = Inr 0 \<and>
   (is_processed existing \<longrightarrow> list_all (\<lambda>(p, c). settled c) (processed_leaves existing) \<longrightarrow>
    object_tree merged \<longrightarrow>
      unusedTranslatedKeysCount existing merged =
        Inr (length (filter (\<lambda>(p, c). original_of c \<noteq> JStr [] \<and> translated_of c \<noteq> JNull \<and>
                                       node_at merged p = None)
                      (processed_leaves existing)))) \<and>
   (plain_key k \<longrightarrow> is_node c \<longrightarrow> object_tree merged \<longrightarrow> node_at merged [k] = None \<longrightarrow>
      (\<exists>st. statistics (JObj [(k, c)]) = Inr st \<and>
            unusedTranslatedKeysCount (JObj [(k, c)]) merged = Inr (translatedCount st)))"
proof (intro conjI impI)
  show "unusedTranslatedKeysCount JUndefined merged = Inr 0"
    and "unusedTranslatedKeysCount JNull merged = Inr 0"
    by (simp_all add: unusedTranslatedKeysCount_def)
next
  assume e: "is_processed existing" and m: "object_tree merged"
    and s: "list_all (\<lambda>(p, c). settled c) (processed_leaves existing)"
  from e have "truthy existing" by (cases existing) auto
  with unused_induct(1) [OF e m, of 0]
  have "unusedTranslatedKeysCount existing merged =
        Inr (length (filter (unused_leaf merged) (processed_leaves existing)))"
    by (simp add: unusedTranslatedKeysCount_def)
  also have "filter (unused_leaf merged) (processed_leaves existing) =
      filter (spec_unused_leaf merged) (processed_leaves existing)"
    using s by (rule settled_unused)
  also have "spec_unused_leaf merged =
      (\<lambda>(p, c). original_of c \<noteq> JStr [] \<and> translated_of c \<noteq> JNull \<and> node_at merged p = None)"
    by (auto simp: spec_unused_leaf_def spec_counted_translated_def)
  finally show "unusedTranslatedKeysCount existing merged =
        Inr (length (filter (\<lambda>(p, c). original_of c \<noteq> JStr [] \<and> translated_of c \<noteq> JNull \<and>
                                       node_at merged p = None)
                      (processed_leaves existing)))" .
next
  assume k: "plain_key k" and c: "is_node c" and m: "object_tree merged"
    and at: "node_at merged [k] = None"
  from c have node: "is_leaf_pair c \<or> is_processed c" by (simp only: is_node_def)
  with k have p: "is_processed (JObj [(k, c)])" by simp
  from at have nk: "\<not> has_key merged k" using node_at_key [of merged k] by (cases "has_key merged k") simp_all
  from unused_induct(1) [OF p m, of 0]
  have "unusedTranslatedKeysCount (JObj [(k, c)]) merged =
      Inr (length (filter (unused_leaf merged) (processed_leaves_in [(k, c)])))"
    by (simp add: unusedTranslatedKeysCount_def del: processed_leaves_in.simps)
  with statistics_single [OF k node] unused_bulk [OF nk, of c]
  show "\<exists>st. statistics (JObj [(k, c)]) = Inr st \<and>
            unusedTranslatedKeysCount (JObj [(k, c)]) merged = Inr (translatedCount st)"
    by (simp del: processed_leaves_in.simps)
qed

theorem unusedTranslatedKeysCount_counts_witness:
  "is_processed example_old \<and> object_tree example_new \<and>
   list_all (\<lambda>(p, c). settled c) (processed_leaves example_old) \<and>
   unusedTranslatedKeysCount example_old example_new = Inr 2 \<and>
   plain_key ''z'' \<and> node_at example_new [''z''] = None \<and>
   (\<exists>st. statistics (JObj [(''z'', JObj [(''u'', leaf (JStr ''One'') (JStr ''Un'')),
                                       (''v'', leaf (JStr ''Two'') JNull)])]) = Inr st \<and>
         unusedTranslatedKeysCount
           (JObj [(''z'', JObj [(''u'', leaf (JStr ''One'') (JStr ''Un'')),
                                (''v'', leaf (JStr ''Two'') JNull)])]) example_new
           = Inr (translatedCount st))"
proof -
  have wf: "is_processed example_old" "object_tree example_new" "plain_key ''z''"
    "is_node (JObj [(''u'', leaf (JStr ''One'') (JStr ''Un'')), (''v'', leaf (JStr ''Two'') JNull)])"
    "node_at example_new [''z''] = None"
    by (simp_all add: example_old_def example_new_def leaf_def pair_field_def plain_key_def
          inherited_def object_prototype_names_def is_node_def)
  have s: "list_all (\<lambda>(p, c). settled c) (processed_leaves example_old)"
    by (simp add: example_old_def leaf_def is_leaf_def settled_def translated_of_def
          original_of_def)
  have n: "length (filter (\<lambda>(p, c). original_of c \<noteq> JStr [] \<and> translated_of c \<noteq> JNull \<and>
                                    node_at example_new p = None)
                      (processed_leaves example_old)) = 2"
    by (simp add: example_old_def example_new_def leaf_def is_leaf_def original_of_def
          translated_of_def)
  from unusedTranslatedKeysCount_counts [of example_new example_old "''z''"
      "JObj [(''u'', leaf (JStr ''One'') (JStr ''Un'')), (''v'', leaf (JStr ''Two'') JNull)]"]
    wf s n
  show ?thesis by simp
qed

text \<open>
  C6 as it is stated fails. The existing tree has one leaf, translated, and the merged
  tree is empty, so the claim gives 1; the code returns no count: the key of the leaf is
  \<^verbatim>\<open>hasOwnProperty\<close>, and line 111 calls the leaf pair under that key for a function.
\<close>

theorem unusedTranslatedKeysCount_method_key_counterexample:
  "processed_node (JObj [(''hasOwnProperty'', example_method_leaf)]) \<and>
   processed_node (JObj []) \<and>
   length (filter (spec_unused_leaf (JObj []))
             (processed_leaves (JObj [(''hasOwnProperty'', example_method_leaf)]))) = 1 \<and>
   unusedTranslatedKeysCount (JObj [(''hasOwnProperty'', example_method_leaf)]) (JObj [])
     = Inl (Throw TypeError)"
  by code_simp

end
